theory Spec2Isabelle
  imports Main "HOL-Library.Word" "HOL-Library.Signed_Division"
begin

unbundle bit_operations_syntax

section \<open>Data model of package uuid\<close>

text \<open>
  The file \<^verbatim>\<open>uuid.go\<close> of the sources holds the package twice, an early draft and
  the final text after it; a further draft stands in a file of its own. The final
  text is the program modelled here. It stores an identifier as
  \<^verbatim>\<open>type UUID struct { u [16]byte }\<close>. A Go \<^verbatim>\<open>byte\<close> is an 8-bit word, the
  array is a list that the code only ever indexes at the constants 0 to 15; its
  length 16 is an invariant of the Go type and a hypothesis of the theorems that
  need it.
\<close>

type_synonym byte = "8 word"

record UUID =
  u :: "byte list"

text \<open>
  \<^verbatim>\<open>type Namespace UUID\<close>, "a Namespace is actually a special UUID": the same
  struct under another name; the generators read its field \<^verbatim>\<open>ns.u\<close>. The package
  predefines four namespaces, those of RFC 4122 for domain names, URLs, ISO OIDs and
  X.500 names.
\<close>

type_synonym Namespace = UUID

definition Namespace_DNS :: Namespace where
  "Namespace_DNS =
     \<lparr>u = [0x6b, 0xa7, 0xb8, 0x10, 0x9d, 0xad, 0x11, 0xd1, 0x80, 0xb4, 0x00, 0xc0, 0x4f, 0xd4, 0x30, 0xc8]\<rparr>"

definition Namespace_URL :: Namespace where
  "Namespace_URL =
     \<lparr>u = [0x6b, 0xa7, 0xb8, 0x11, 0x9d, 0xad, 0x11, 0xd1, 0x80, 0xb4, 0x00, 0xc0, 0x4f, 0xd4, 0x30, 0xc8]\<rparr>"

definition Namespace_OID :: Namespace where
  "Namespace_OID =
     \<lparr>u = [0x6b, 0xa7, 0xb8, 0x12, 0x9d, 0xad, 0x11, 0xd1, 0x80, 0xb4, 0x00, 0xc0, 0x4f, 0xd4, 0x30, 0xc8]\<rparr>"

definition Namespace_X500 :: Namespace where
  "Namespace_X500 =
     \<lparr>u = [0x6b, 0xa7, 0xb8, 0x14, 0x9d, 0xad, 0x11, 0xd1, 0x80, 0xb4, 0x00, 0xc0, 0x4f, 0xd4, 0x30, 0xc8]\<rparr>"


text \<open>\<^verbatim>\<open>var NilUUID UUID\<close>: Go's zero value, sixteen zero bytes.\<close>

definition NilUUID :: UUID where
  "NilUUID = \<lparr>u = replicate 16 0\<rparr>"

section \<open>Library functions used by the package\<close>

subsection \<open>copy and formatting\<close>

text \<open>
  Go's builtin \<^verbatim>\<open>copy(dst, src)\<close> overwrites the first
  \<^verbatim>\<open>min(len(dst), len(src))\<close> elements of \<^verbatim>\<open>dst\<close>.
\<close>

definition copy_go :: "'a list \<Rightarrow> 'a list \<Rightarrow> 'a list" where
  "copy_go dst src =
     take (min (length dst) (length src)) src @ drop (min (length dst) (length src)) dst"

text \<open>
  \<^verbatim>\<open>fmt.Sprintf("%02x", b)\<close> for a byte: two lower-case hexadecimal digits,
  zero padded (package fmt takes the digits from \<^verbatim>\<open>"0123456789abcdefx"\<close>).
\<close>

definition ldigits :: string where
  "ldigits = ''0123456789abcdefx''"

definition fmt_02x :: "byte \<Rightarrow> string" where
  "fmt_02x b = [ldigits ! unat (drop_bit 4 b), ldigits ! unat (b AND 0xf)]"

section \<open>Textual form and version\<close>

text \<open>
  \<^verbatim>\<open>func (u UUID) String() string\<close>: one \<^verbatim>\<open>Sprintf\<close> with the format
  \<^verbatim>\<open>"%02x%02x%02x%02x-%02x%02x-%02x%02x-%02x%02x-%02x%02x%02x%02x%02x%02x"\<close>
  and the sixteen bytes in order.
\<close>

definition String :: "UUID \<Rightarrow> string" where
  "String x =
     fmt_02x (u x ! 0) @ fmt_02x (u x ! 1) @ fmt_02x (u x ! 2) @ fmt_02x (u x ! 3) @ ''-'' @
     fmt_02x (u x ! 4) @ fmt_02x (u x ! 5) @ ''-'' @
     fmt_02x (u x ! 6) @ fmt_02x (u x ! 7) @ ''-'' @
     fmt_02x (u x ! 8) @ fmt_02x (u x ! 9) @ ''-'' @
     fmt_02x (u x ! 10) @ fmt_02x (u x ! 11) @ fmt_02x (u x ! 12) @
     fmt_02x (u x ! 13) @ fmt_02x (u x ! 14) @ fmt_02x (u x ! 15)"

text \<open>\<^verbatim>\<open>func (u UUID) Version() byte { return u.u[6] >> 4 }\<close>\<close>

definition Version :: "UUID \<Rightarrow> byte" where
  "Version x = drop_bit 4 (u x ! 6)"

section \<open>Hashing: crypto/md5 and crypto/sha1\<close>

text \<open>
  A Go \<^verbatim>\<open>hash.Hash\<close> is modelled by the bytes written to it so far: \<^verbatim>\<open>New\<close> starts
  with none, \<^verbatim>\<open>Write\<close> appends, and \<^verbatim>\<open>Sum(nil)\<close> is the digest of what was written,
  MD5 after RFC 1321 and SHA-1 after FIPS 180-4.
\<close>

definition hash_New :: "byte list" where
  "hash_New = []"

definition hash_Write :: "byte list \<Rightarrow> byte list \<Rightarrow> byte list" where
  "hash_Write h p = h @ p"

definition bytes_le32 :: "32 word \<Rightarrow> byte list" where
  "bytes_le32 w = [ucast w, ucast (drop_bit 8 w), ucast (drop_bit 16 w), ucast (drop_bit 24 w)]"

definition bytes_be32 :: "32 word \<Rightarrow> byte list" where
  "bytes_be32 w = [ucast (drop_bit 24 w), ucast (drop_bit 16 w), ucast (drop_bit 8 w), ucast w]"

definition word_le32 :: "byte list \<Rightarrow> 32 word" where
  "word_le32 bs =
     ucast (bs ! 0) OR push_bit 8 (ucast (bs ! 1)) OR push_bit 16 (ucast (bs ! 2)) OR
     push_bit 24 (ucast (bs ! 3))"

definition word_be32 :: "byte list \<Rightarrow> 32 word" where
  "word_be32 bs =
     push_bit 24 (ucast (bs ! 0)) OR push_bit 16 (ucast (bs ! 1)) OR push_bit 8 (ucast (bs ! 2)) OR
     ucast (bs ! 3)"

definition bytes_be64 :: "64 word \<Rightarrow> byte list" where
  "bytes_be64 w = map (\<lambda>k. ucast (drop_bit (8 * (7 - k)) w)) [0, 1, 2, 3, 4, 5, 6, 7]"

text \<open>
  Padding, shared by both algorithms up to the byte order of the length: a byte
  \<^verbatim>\<open>0x80\<close>, zero bytes up to 56 modulo 64, and the length in bits as 64 bits.
\<close>

definition pad_zeros :: "nat \<Rightarrow> nat" where
  "pad_zeros n = (119 - n mod 64) mod 64"

definition md5_pad :: "byte list \<Rightarrow> byte list" where
  "md5_pad msg =
     msg @ [0x80] @ replicate (pad_zeros (length msg)) 0 @
     rev (bytes_be64 (of_nat (8 * length msg)))"

definition sha1_pad :: "byte list \<Rightarrow> byte list" where
  "sha1_pad msg =
     msg @ [0x80] @ replicate (pad_zeros (length msg)) 0 @
     bytes_be64 (of_nat (8 * length msg))"

text \<open>\<^verbatim>\<open>bits.RotateLeft32(x, k)\<close> for \<open>0 < k < 32\<close>: \<^verbatim>\<open>x<<k | x>>(32-k)\<close>.\<close>

definition RotateLeft32 :: "nat \<Rightarrow> 32 word \<Rightarrow> 32 word" where
  "RotateLeft32 k x = push_bit k x OR drop_bit (32 - k) x"

definition block_words :: "(byte list \<Rightarrow> 32 word) \<Rightarrow> byte list \<Rightarrow> 32 word list" where
  "block_words conv blk = map (\<lambda>j. conv (take 4 (drop (4 * j) blk))) [0..<16]"

definition md5_K :: "32 word list" where
  "md5_K =
     [0xd76aa478, 0xe8c7b756, 0x242070db, 0xc1bdceee,
      0xf57c0faf, 0x4787c62a, 0xa8304613, 0xfd469501,
      0x698098d8, 0x8b44f7af, 0xffff5bb1, 0x895cd7be,
      0x6b901122, 0xfd987193, 0xa679438e, 0x49b40821,
      0xf61e2562, 0xc040b340, 0x265e5a51, 0xe9b6c7aa,
      0xd62f105d, 0x02441453, 0xd8a1e681, 0xe7d3fbc8,
      0x21e1cde6, 0xc33707d6, 0xf4d50d87, 0x455a14ed,
      0xa9e3e905, 0xfcefa3f8, 0x676f02d9, 0x8d2a4c8a,
      0xfffa3942, 0x8771f681, 0x6d9d6122, 0xfde5380c,
      0xa4beea44, 0x4bdecfa9, 0xf6bb4b60, 0xbebfbc70,
      0x289b7ec6, 0xeaa127fa, 0xd4ef3085, 0x04881d05,
      0xd9d4d039, 0xe6db99e5, 0x1fa27cf8, 0xc4ac5665,
      0xf4292244, 0x432aff97, 0xab9423a7, 0xfc93a039,
      0x655b59c3, 0x8f0ccc92, 0xffeff47d, 0x85845dd1,
      0x6fa87e4f, 0xfe2ce6e0, 0xa3014314, 0x4e0811a1,
      0xf7537e82, 0xbd3af235, 0x2ad7d2bb, 0xeb86d391]"

definition md5_s :: "nat list" where
  "md5_s =
     [7, 12, 17, 22, 7, 12, 17, 22, 7, 12, 17, 22, 7, 12, 17, 22,
      5, 9, 14, 20, 5, 9, 14, 20, 5, 9, 14, 20, 5, 9, 14, 20,
      4, 11, 16, 23, 4, 11, 16, 23, 4, 11, 16, 23, 4, 11, 16, 23,
      6, 10, 15, 21, 6, 10, 15, 21, 6, 10, 15, 21, 6, 10, 15, 21]"

type_synonym md5_state = "32 word \<times> 32 word \<times> 32 word \<times> 32 word"

fun md5_step :: "32 word list \<Rightarrow> md5_state \<Rightarrow> nat \<Rightarrow> md5_state" where
  "md5_step M (a, b, c, d) i =
     (let f = (if i < 16 then (b AND c) OR (NOT b AND d)
               else if i < 32 then (d AND b) OR (NOT d AND c)
               else if i < 48 then b XOR c XOR d
               else c XOR (b OR NOT d));
          g = (if i < 16 then i
               else if i < 32 then (5 * i + 1) mod 16
               else if i < 48 then (3 * i + 5) mod 16
               else (7 * i) mod 16)
      in (d, b + RotateLeft32 (md5_s ! i) (f + a + md5_K ! i + M ! g), b, c))"

fun md5_block :: "md5_state \<Rightarrow> byte list \<Rightarrow> md5_state" where
  "md5_block (a, b, c, d) blk =
     (case foldl (md5_step (block_words word_le32 blk)) (a, b, c, d) [0..<64] of
        (a', b', c', d') \<Rightarrow> (a + a', b + b', c + c', d + d'))"

definition blocks :: "byte list \<Rightarrow> byte list list" where
  "blocks msg = map (\<lambda>k. take 64 (drop (64 * k) msg)) [0..<length msg div 64]"

definition md5_Sum :: "byte list \<Rightarrow> byte list" where
  "md5_Sum h =
     (case foldl md5_block (0x67452301, 0xefcdab89, 0x98badcfe, 0x10325476) (blocks (md5_pad h)) of
        (a, b, c, d) \<Rightarrow> bytes_le32 a @ bytes_le32 b @ bytes_le32 c @ bytes_le32 d)"

type_synonym sha1_state = "32 word \<times> 32 word \<times> 32 word \<times> 32 word \<times> 32 word"

text \<open>
  One round of SHA-1 with the message word \<open>w\<close> of round \<open>t\<close>.
\<close>

fun sha1_step :: "32 word \<Rightarrow> sha1_state \<Rightarrow> nat \<Rightarrow> sha1_state" where
  "sha1_step w (a, b, c, d, e) t =
     (let f = (if t < 20 then (b AND c) OR (NOT b AND d)
               else if t < 40 then b XOR c XOR d
               else if t < 60 then (b AND c) OR (b AND d) OR (c AND d)
               else b XOR c XOR d);
          k = (if t < 20 then 0x5a827999
               else if t < 40 then 0x6ed9eba1
               else if t < 60 then 0x8f1bbcdc
               else 0xca62c1d6)
      in (RotateLeft32 5 a + f + e + k + w, a, RotateLeft32 30 b, c, d))"

text \<open>
  The rounds from \<open>t\<close> on, \<open>n\<close> of them. As in Go's \<^verbatim>\<open>blockGeneric\<close> only the
  last sixteen message words are kept: before round \<open>t \<ge> 16\<close> the window holds the
  words of the rounds \<open>t - 16\<close> to \<open>t - 1\<close>, and the word of round \<open>t\<close> comes from
  those 3, 8, 14 and 16 places back.
\<close>

fun sha1_rounds :: "nat \<Rightarrow> nat \<Rightarrow> 32 word list \<Rightarrow> sha1_state \<Rightarrow> sha1_state" where
  "sha1_rounds 0 t w st = st"
| "sha1_rounds (Suc n) t w st =
     (if t < 16 then sha1_rounds n (Suc t) w (sha1_step (w ! t) st t)
      else sha1_rounds n (Suc t)
             (tl w @ [RotateLeft32 1 (w ! 13 XOR w ! 8 XOR w ! 2 XOR w ! 0)])
             (sha1_step (RotateLeft32 1 (w ! 13 XOR w ! 8 XOR w ! 2 XOR w ! 0)) st t))"

fun sha1_block :: "sha1_state \<Rightarrow> byte list \<Rightarrow> sha1_state" where
  "sha1_block (a, b, c, d, e) blk =
     (case sha1_rounds 80 0 (block_words word_be32 blk) (a, b, c, d, e) of
        (a', b', c', d', e') \<Rightarrow> (a + a', b + b', c + c', d + d', e + e'))"

definition sha1_Sum :: "byte list \<Rightarrow> byte list" where
  "sha1_Sum h =
     (case foldl sha1_block (0x67452301, 0xefcdab89, 0x98badcfe, 0x10325476, 0xc3d2e1f0)
             (blocks (sha1_pad h)) of
        (a, b, c, d, e) \<Rightarrow>
          bytes_be32 a @ bytes_be32 b @ bytes_be32 c @ bytes_be32 d @ bytes_be32 e)"

section \<open>Generation state and generators\<close>

text \<open>
  The package-level variables \<^verbatim>\<open>lastTime int64\<close>, \<^verbatim>\<open>clockSeq uint16\<close> and
  \<^verbatim>\<open>nodeId [6]byte\<close>, guarded by \<^verbatim>\<open>uuidMtx\<close>. Every generator holds the mutex
  from entry to return, so calls are serial and a call is a function from the state
  before it to the state after it. The clock and the random source are inputs: a
  call of \<^verbatim>\<open>time.Now().UTC().UnixNano()\<close> is the \<^verbatim>\<open>int64\<close> it returns, a call of
  \<^verbatim>\<open>rand.Read(b)\<close> is the sequence of bytes it delivers, written over the start of
  \<^verbatim>\<open>b\<close> (the code ignores the count and the error that \<^verbatim>\<open>rand.Read\<close> returns).
\<close>

record gen_state =
  lastTime :: "64 word"
  clockSeq :: "16 word"
  nodeId :: "byte list"

definition rand_Read :: "byte list \<Rightarrow> byte list \<Rightarrow> byte list" where
  "rand_Read b random = copy_go b random"

text \<open>Go's zero values of the three variables, before \<^verbatim>\<open>init\<close> runs.\<close>

definition zero_state :: gen_state where
  "zero_state = \<lparr>lastTime = 0, clockSeq = 0, nodeId = replicate 6 0\<rparr>"

text \<open>\<^verbatim>\<open>func initNodeId() { rand.Read(nodeId[:]); nodeId[5] |= 1 }\<close>\<close>

definition initNodeId :: "byte list \<Rightarrow> gen_state \<Rightarrow> gen_state" where
  "initNodeId random st =
     (let n = rand_Read (nodeId st) random;
          n = n[5 := n ! 5 OR 1]
      in st\<lparr>nodeId := n\<rparr>)"

text \<open>
  \<^verbatim>\<open>initClockSeq\<close>: two random bytes,
  \<^verbatim>\<open>clockSeq = uint16(cs[1]) + uint16(cs[0]) << 8\<close>, then \<^verbatim>\<open>clockSeq &= 0x3FFF\<close>.
  In Go \<^verbatim>\<open><<\<close> binds tighter than \<^verbatim>\<open>+\<close>.
\<close>

definition initClockSeq :: "byte list \<Rightarrow> gen_state \<Rightarrow> gen_state" where
  "initClockSeq random st =
     (let cs = rand_Read (replicate 2 0) random;
          c = (ucast (cs ! 1) :: 16 word) + push_bit 8 (ucast (cs ! 0) :: 16 word);
          c = c AND 0x3FFF
      in st\<lparr>clockSeq := c\<rparr>)"

text \<open>\<^verbatim>\<open>func init() { initNodeId(); initClockSeq() }\<close>\<close>

definition init :: "byte list \<Rightarrow> byte list \<Rightarrow> gen_state" where
  "init random1 random2 = initClockSeq random2 (initNodeId random1 zero_state)"

text \<open>
  \<^verbatim>\<open>getTimestampV1\<close>: the clock in units of 100 ns (Go's \<^verbatim>\<open>/\<close> on \<^verbatim>\<open>int64\<close>
  truncates towards zero), moved to the epoch of 15 October 1582; the comparison with
  \<^verbatim>\<open>lastTime\<close> is the signed one of \<^verbatim>\<open>int64\<close>.
\<close>

definition OFFSETNS :: "64 word" where
  "OFFSETNS = 122192928000000000"

definition getTimestampV1 :: "64 word \<Rightarrow> gen_state \<Rightarrow> 64 word \<times> gen_state" where
  "getTimestampV1 now st =
     (let t = (word_of_int (sint now sdiv 100) :: 64 word);
          t = t + OFFSETNS;
          st = (if word_sle t (lastTime st)
                then st\<lparr>clockSeq := (clockSeq st + 1) AND 0x3FFF\<rparr> else st);
          st = st\<lparr>lastTime := t\<rparr>
      in (t, st))"

text \<open>
  \<^verbatim>\<open>func (u *UUID) GenerateV1()\<close>. The shifts of \<^verbatim>\<open>ts\<close> are arithmetic, those of
  the unsigned conversions logical; \<^verbatim>\<open>&\<close> binds tighter than \<^verbatim>\<open>|\<close>.
\<close>

definition GenerateV1_m :: "64 word \<Rightarrow> UUID \<Rightarrow> gen_state \<Rightarrow> UUID \<times> gen_state" where
  "GenerateV1_m now x st =
     (case getTimestampV1 now st of
        (ts, st') \<Rightarrow>
          let b = u x;
              b = b[0 := ucast (drop_bit 24 (ucast ts :: 32 word))];
              b = b[1 := ucast (drop_bit 16 (ucast ts :: 32 word))];
              b = b[2 := ucast (drop_bit 8 (ucast ts :: 32 word))];
              b = b[3 := ucast (ucast ts :: 32 word)];
              t = (ucast (signed_drop_bit 32 ts AND 0xFFFF) :: 16 word);
              b = b[4 := ucast (drop_bit 8 t)];
              b = b[5 := ucast t];
              t = (ucast ((signed_drop_bit 48 ts AND 0x0FFF) OR 0x1000) :: 16 word);
              b = b[6 := ucast (drop_bit 8 t)];
              b = b[7 := ucast t];
              cs = (clockSeq st' AND 0x3fff) OR 0x8000;
              b = b[8 := ucast (drop_bit 8 cs)];
              b = b[9 := ucast cs];
              b = take 10 b @ copy_go (drop 10 b) (nodeId st')
          in (x\<lparr>u := b\<rparr>, st'))"

text \<open>\<^verbatim>\<open>func GenerateV1() UUID\<close>: the method on a fresh zero value.\<close>

definition GenerateV1 :: "64 word \<Rightarrow> gen_state \<Rightarrow> UUID \<times> gen_state" where
  "GenerateV1 now st = GenerateV1_m now \<lparr>u = replicate 16 0\<rparr> st"

text \<open>
  The clock step of the earlier drafts of \<^verbatim>\<open>GenerateV1\<close> that the sources also
  hold: there the test is \<^verbatim>\<open>ts < lastTime\<close>. The final code above replaced it.
\<close>

definition draft_clock_step :: "64 word \<Rightarrow> gen_state \<Rightarrow> gen_state" where
  "draft_clock_step ts st =
     (let st = (if word_sless ts (lastTime st)
                then st\<lparr>clockSeq := (clockSeq st + 1) AND 0x3FFF\<rparr> else st)
      in st\<lparr>lastTime := ts\<rparr>)"

text \<open>
  \<^verbatim>\<open>func (u *UUID) GenerateV3(ns Namespace, name string)\<close>: nothing happens for an
  empty name; otherwise the MD5 digest of the namespace bytes followed by the bytes
  of the name is copied over the identifier and two fields are overwritten.
\<close>

definition GenerateV3_m :: "UUID \<Rightarrow> Namespace \<Rightarrow> string \<Rightarrow> UUID" where
  "GenerateV3_m x ns name =
     (if length (u ns) \<noteq> 16 \<or> length name = 0 then x
      else
        let h = hash_New;
            h = hash_Write h (u ns);
            h = hash_Write h (map of_char name);
            b = copy_go (u x) (md5_Sum h);
            b = b[6 := b ! 6 AND 0x0f];
            b = b[6 := b ! 6 OR 0x30];
            b = b[8 := b ! 8 AND 0x3f];
            b = b[8 := b ! 8 OR 0x80]
        in x\<lparr>u := b\<rparr>)"

definition GenerateV3 :: "Namespace \<Rightarrow> string \<Rightarrow> UUID" where
  "GenerateV3 ns name = GenerateV3_m \<lparr>u = replicate 16 0\<rparr> ns name"

text \<open>\<^verbatim>\<open>func (u *UUID) GenerateV5(ns Namespace, name string)\<close>: the same with SHA-1.\<close>

definition GenerateV5_m :: "UUID \<Rightarrow> Namespace \<Rightarrow> string \<Rightarrow> UUID" where
  "GenerateV5_m x ns name =
     (if length (u ns) \<noteq> 16 \<or> length name = 0 then x
      else
        let h = hash_New;
            h = hash_Write h (u ns);
            h = hash_Write h (map of_char name);
            b = copy_go (u x) (sha1_Sum h);
            b = b[6 := b ! 6 AND 0x0f];
            b = b[6 := b ! 6 OR 0x50];
            b = b[8 := b ! 8 AND 0x3f];
            b = b[8 := b ! 8 OR 0x80]
        in x\<lparr>u := b\<rparr>)"

definition GenerateV5 :: "Namespace \<Rightarrow> string \<Rightarrow> UUID" where
  "GenerateV5 ns name = GenerateV5_m \<lparr>u = replicate 16 0\<rparr> ns name"

text \<open>\<^verbatim>\<open>func (u *UUID) GenerateV4()\<close>: sixteen random bytes, two fields overwritten.\<close>

definition GenerateV4_m :: "byte list \<Rightarrow> UUID \<Rightarrow> UUID" where
  "GenerateV4_m random x =
     (let b = rand_Read (u x) random;
          b = b[6 := b ! 6 AND 0x0f];
          b = b[6 := b ! 6 OR 0x40];
          b = b[8 := b ! 8 AND 0x3f];
          b = b[8 := b ! 8 OR 0x80]
      in x\<lparr>u := b\<rparr>)"

definition GenerateV4 :: "byte list \<Rightarrow> UUID" where
  "GenerateV4 random = GenerateV4_m random \<lparr>u = replicate 16 0\<rparr>"

subsection \<open>A process: generation calls in sequence\<close>

text \<open>
  The calls a process makes, in the order in which they hold the mutex. A call of
  \<^verbatim>\<open>GenerateV1\<close> carries the clock reading it sees, one of \<^verbatim>\<open>GenerateV4\<close> the
  random bytes it draws; each carries the receiver it is called on. Only
  \<^verbatim>\<open>GenerateV1\<close> mentions the package-level variables.
\<close>

datatype gen_call =
    CallV1 "64 word" UUID
  | CallV3 UUID Namespace string
  | CallV4 "byte list" UUID
  | CallV5 UUID Namespace string

fun run_call :: "gen_call \<Rightarrow> gen_state \<Rightarrow> UUID \<times> gen_state" where
  "run_call (CallV1 now x) st = GenerateV1_m now x st"
| "run_call (CallV3 x ns name) st = (GenerateV3_m x ns name, st)"
| "run_call (CallV4 random x) st = (GenerateV4_m random x, st)"
| "run_call (CallV5 x ns name) st = (GenerateV5_m x ns name, st)"

fun run_calls :: "gen_call list \<Rightarrow> gen_state \<Rightarrow> UUID list \<times> gen_state" where
  "run_calls [] st = ([], st)"
| "run_calls (c # cs) st =
     (case run_call c st of
        (x, st') \<Rightarrow> (case run_calls cs st' of (xs, st'') \<Rightarrow> (x # xs, st'')))"

section \<open>Scanning: the part of package fmt behind Parse\<close>

text \<open>
  \<^verbatim>\<open>Parse\<close> hands its input to \<^verbatim>\<open>fmt.Sscanf\<close>. The scanner of the Go standard
  library is modelled here as far as the format of \<^verbatim>\<open>Parse\<close> exercises it: reading
  runes from the input under a width limit, skipping leading space before a verb,
  the verb \<^verbatim>\<open>%x\<close> for an argument of type \<^verbatim>\<open>*uint8\<close>, and literal characters of the
  format. A scanning error is a panic inside \<^verbatim>\<open>fmt\<close> that \<^verbatim>\<open>Sscanf\<close> recovers and
  returns; here it is a value.
\<close>

datatype scan_error =
    ErrUnexpectedEOF
  | UnexpectedNewline
  | ExpectedInteger
  | InputDoesNotMatchFormat
  | ErrSyntax
  | ErrRange
  | UnsignedIntegerOverflow
  | TooFewOperands
  | TooManyOperands

type_synonym rune = nat

definition RuneError :: rune where
  "RuneError = 0xFFFD"

text \<open>
  \<^verbatim>\<open>utf8.DecodeRune\<close>: the first rune of a byte sequence and its width in bytes; an
  invalid or truncated encoding is \<^verbatim>\<open>(RuneError, 1)\<close>.
\<close>

fun DecodeRune :: "string \<Rightarrow> rune \<times> nat" where
  "DecodeRune [] = (RuneError, 0)"
| "DecodeRune (c # p) =
     (let p0 = (of_char c :: nat) in
      if p0 < 0x80 then (p0, 1)
      else if p0 < 0xC2 \<or> 0xF4 < p0 then (RuneError, 1)
      else
        let sz = (if p0 < 0xE0 then 2 else if p0 < 0xF0 then 3 else (4::nat));
            lo = (if p0 = 0xE0 then 0xA0 else if p0 = 0xF0 then 0x90 else (0x80::nat));
            hi = (if p0 = 0xED then 0x9F else if p0 = 0xF4 then 0x8F else (0xBF::nat))
        in if Suc (length p) < sz then (RuneError, 1)
           else
             let b1 = (of_char (p ! 0) :: nat) in
             if b1 < lo \<or> hi < b1 then (RuneError, 1)
             else if sz \<le> 2 then (p0 mod 32 * 64 + b1 mod 64, 2)
             else
               let b2 = (of_char (p ! 1) :: nat) in
               if b2 < 0x80 \<or> 0xBF < b2 then (RuneError, 1)
               else if sz \<le> 3 then (p0 mod 16 * 4096 + b1 mod 64 * 64 + b2 mod 64, 3)
               else
                 let b3 = (of_char (p ! 2) :: nat) in
                 if b3 < 0x80 \<or> 0xBF < b3 then (RuneError, 1)
                 else (p0 mod 8 * 262144 + b1 mod 64 * 4096 + b2 mod 64 * 64 + b3 mod 64, 4))"

text \<open>\<^verbatim>\<open>isSpace\<close> of package fmt, a table of ranges of code points.\<close>

definition isSpace :: "rune \<Rightarrow> bool" where
  "isSpace r \<longleftrightarrow>
     (0x0009 \<le> r \<and> r \<le> 0x000d) \<or> r = 0x0020 \<or> r = 0x0085 \<or> r = 0x00a0 \<or> r = 0x1680 \<or>
     (0x2000 \<le> r \<and> r \<le> 0x200a) \<or> (0x2028 \<le> r \<and> r \<le> 0x2029) \<or> r = 0x202f \<or>
     r = 0x205f \<or> r = 0x3000"

definition hexadecimalDigits :: string where
  "hexadecimalDigits = ''0123456789aAbBcCdDeEfF''"

definition indexRune :: "string \<Rightarrow> rune \<Rightarrow> bool" where
  "indexRune ok r \<longleftrightarrow> r \<in> set (map of_char ok)"

text \<open>
  The scan state \<^verbatim>\<open>ss\<close>: the unread input and the number of runes read so far.
  \<^verbatim>\<open>ss.ReadRune\<close> reports end of input when the input is exhausted or when \<^verbatim>\<open>count\<close>
  has reached \<^verbatim>\<open>argLimit\<close>, the limit the width of the current verb sets;
  \<open>None\<close> is that end of input. \<^verbatim>\<open>UnreadRune\<close> is modelled by going on from the
  state before the read.
\<close>

record ss =
  rs :: string
  count :: nat

definition hugeWid :: nat where
  "hugeWid = 2 ^ 30"

definition ReadRune :: "nat \<Rightarrow> ss \<Rightarrow> (rune \<times> ss) option" where
  "ReadRune argLimit s =
     (if argLimit \<le> count s \<or> rs s = [] then None
      else Some (fst (DecodeRune (rs s)),
                 \<lparr>rs = drop (snd (DecodeRune (rs s))) (rs s), count = Suc (count s)\<rparr>))"

definition peek :: "nat \<Rightarrow> string \<Rightarrow> ss \<Rightarrow> bool" where
  "peek argLimit ok s =
     (case ReadRune argLimit s of None \<Rightarrow> False | Some (r, s') \<Rightarrow> indexRune ok r)"

text \<open>
  \<^verbatim>\<open>ss.SkipSpace\<close> with \<^verbatim>\<open>nlIsSpace = false\<close>, as \<^verbatim>\<open>Sscanf\<close> sets it: a newline
  is an error, other space is skipped.
\<close>

function SkipSpace :: "nat \<Rightarrow> ss \<Rightarrow> scan_error + ss" where
  "SkipSpace argLimit s =
     (case ReadRune argLimit s of
        None \<Rightarrow> Inr s
      | Some (r, s') \<Rightarrow>
          if r = 0x0D \<and> peek argLimit [CHR 0x0A] s' then SkipSpace argLimit s'
          else if r = 0x0A then Inl UnexpectedNewline
          else if \<not> isSpace r then Inr s
          else SkipSpace argLimit s')"
  by pat_completeness auto
termination
proof (relation "measure (\<lambda>(l, s). length (rs s))")
  have width: "0 < snd (DecodeRune inp)" if "inp \<noteq> []" for inp
    using that by (cases inp) (simp_all add: Let_def)
  have shorter: "length (rs s') < length (rs s)" if "ReadRune l s = Some (r, s')" for l s r s'
  proof -
    from that have "rs s \<noteq> []" and "rs s' = drop (snd (DecodeRune (rs s))) (rs s)"
      by (auto simp: ReadRune_def split: if_splits)
    with width [of "rs s"] show ?thesis by simp
  qed
  show "wf (measure (\<lambda>(l, s). length (rs s)))" by simp
  show "((argLimit, s'), (argLimit, s)) \<in> measure (\<lambda>(l, s). length (rs s))"
    if "ReadRune argLimit s = Some x" and "(r, s') = x" for argLimit s x r s'
    using that shorter [of argLimit s r s'] by simp
  then show "((argLimit, s'), (argLimit, s)) \<in> measure (\<lambda>(l, s). length (rs s))"
    if "ReadRune argLimit s = Some x" and "(r, s') = x" for argLimit s x r s'
    using that by blast
qed

text \<open>
  \<^verbatim>\<open>for s.accept(digits) { }\<close>: runes of \<^verbatim>\<open>digits\<close> are appended to the token
  buffer until another rune or the end of input.
\<close>

function accept_loop :: "nat \<Rightarrow> string \<Rightarrow> ss \<Rightarrow> rune list \<Rightarrow> rune list \<times> ss" where
  "accept_loop argLimit ok s buf =
     (case ReadRune argLimit s of
        None \<Rightarrow> (buf, s)
      | Some (r, s') \<Rightarrow>
          if indexRune ok r then accept_loop argLimit ok s' (buf @ [r]) else (buf, s))"
  by pat_completeness auto
termination
proof (relation "measure (\<lambda>(l, ok, s, buf). length (rs s))")
  have width: "0 < snd (DecodeRune inp)" if "inp \<noteq> []" for inp
    using that by (cases inp) (simp_all add: Let_def)
  show "wf (measure (\<lambda>(l, ok, s, buf). length (rs s)))" by simp
  show "((argLimit, ok, s', buf @ [r]), (argLimit, ok, s, buf))
          \<in> measure (\<lambda>(l, ok, s, buf). length (rs s))"
    if "ReadRune argLimit s = Some x" and "(r, s') = x" for argLimit ok s buf x r s'
  proof -
    from that have "rs s \<noteq> []" and "rs s' = drop (snd (DecodeRune (rs s))) (rs s)"
      by (auto simp: ReadRune_def split: if_splits)
    with width [of "rs s"] show ?thesis by simp
  qed
qed

text \<open>
  \<^verbatim>\<open>ss.scanNumber(digits, false)\<close>: at least one digit, else the error
  "expected integer".
\<close>

definition scanNumber :: "nat \<Rightarrow> string \<Rightarrow> ss \<Rightarrow> scan_error + (rune list \<times> ss)" where
  "scanNumber argLimit digits s =
     (case ReadRune argLimit s of
        None \<Rightarrow> Inl ErrUnexpectedEOF
      | Some (r, s') \<Rightarrow>
          if indexRune digits r then Inr (accept_loop argLimit digits s' [r])
          else Inl ExpectedInteger)"

text \<open>
  \<^verbatim>\<open>strconv.ParseUint(tok, 16, 64)\<close>: the value of a non-empty sequence of
  hexadecimal digits, \<^verbatim>\<open>ErrRange\<close> beyond 64 bits.
\<close>

definition hex_digit :: "rune \<Rightarrow> nat option" where
  "hex_digit r =
     (if 0x30 \<le> r \<and> r \<le> 0x39 then Some (r - 0x30)
      else if 0x61 \<le> r \<and> r \<le> 0x66 then Some (r - 0x61 + 10)
      else if 0x41 \<le> r \<and> r \<le> 0x46 then Some (r - 0x41 + 10)
      else None)"

fun hex_value :: "nat \<Rightarrow> rune list \<Rightarrow> nat option" where
  "hex_value acc [] = Some acc"
| "hex_value acc (r # tok) =
     (case hex_digit r of None \<Rightarrow> None | Some d \<Rightarrow> hex_value (16 * acc + d) tok)"

definition ParseUint :: "rune list \<Rightarrow> scan_error + nat" where
  "ParseUint tok =
     (if tok = [] then Inl ErrSyntax
      else case hex_value 0 tok of
             None \<Rightarrow> Inl ErrSyntax
           | Some i \<Rightarrow> if 2 ^ 64 \<le> i then Inl ErrRange else Inr i)"

text \<open>
  \<^verbatim>\<open>ss.scanUint('x', bitSize)\<close>: skip space, fail at the end of input, scan the
  digits, convert them, and check that the value fits \<^verbatim>\<open>bitSize\<close> bits.
\<close>

definition scanUint :: "nat \<Rightarrow> nat \<Rightarrow> ss \<Rightarrow> scan_error + (nat \<times> ss)" where
  "scanUint argLimit bitSize s =
     (case SkipSpace argLimit s of
        Inl e \<Rightarrow> Inl e
      | Inr s1 \<Rightarrow>
          if ReadRune argLimit s1 = None then Inl ErrUnexpectedEOF
          else case scanNumber argLimit hexadecimalDigits s1 of
                 Inl e \<Rightarrow> Inl e
               | Inr (tok, s2) \<Rightarrow>
                   (case ParseUint tok of
                      Inl e \<Rightarrow> Inl e
                    | Inr i \<Rightarrow>
                        if i mod 2 ^ bitSize \<noteq> i then Inl UnsignedIntegerOverflow
                        else Inr (i, s2)))"

text \<open>
  \<^verbatim>\<open>ss.doScanf\<close>. The format is taken as the list of its directives: \<open>Verb_x w\<close> is
  \<^verbatim>\<open>%x\<close> with width \<open>w\<close> (\<^verbatim>\<open>%02x\<close> is \<open>Verb_x 2\<close>), \<open>Literal c\<close> a character
  that the input must repeat. The arguments are pointers to bytes of the receiver's
  array, given by their indices; a scanned value is stored at once, so the values
  scanned before an error stay stored. Input left over after the last directive is
  not looked at.
\<close>

datatype directive = Verb_x nat | Literal char

fun doScanf :: "directive list \<Rightarrow> nat list \<Rightarrow> ss \<Rightarrow> byte list \<Rightarrow> byte list \<times> scan_error option" where
  "doScanf [] a s b = (b, if a = [] then None else Some TooManyOperands)"
| "doScanf (Literal c # format) a s b =
     (case ReadRune hugeWid s of
        None \<Rightarrow> (b, Some ErrUnexpectedEOF)
      | Some (r, s') \<Rightarrow>
          if of_char c \<noteq> r then (b, Some InputDoesNotMatchFormat)
          else doScanf format a s' b)"
| "doScanf (Verb_x maxWid # format) a s b =
     (case SkipSpace hugeWid s of
        Inl e \<Rightarrow> (b, Some e)
      | Inr s1 \<Rightarrow>
          (case a of
             [] \<Rightarrow> (b, Some TooFewOperands)
           | arg # a' \<Rightarrow>
               (case scanUint (min hugeWid (count s1 + maxWid)) 8 s1 of
                  Inl e \<Rightarrow> (b, Some e)
                | Inr (i, s2) \<Rightarrow> doScanf format a' s2 (b[arg := of_nat i]))))"

definition Sscanf :: "string \<Rightarrow> directive list \<Rightarrow> nat list \<Rightarrow> byte list \<Rightarrow> byte list \<times> scan_error option" where
  "Sscanf str format a b = doScanf format a \<lparr>rs = str, count = 0\<rparr> b"

section \<open>Parsing\<close>

text \<open>
  The format of \<^verbatim>\<open>Parse\<close>,
  \<^verbatim>\<open>"%02x%02x%02x%02x-%02x%02x-%02x%02x-%02x%02x-%02x%02x%02x%02x%02x%02x"\<close>.
\<close>

definition uuid_format :: "directive list" where
  "uuid_format =
     [Verb_x 2, Verb_x 2, Verb_x 2, Verb_x 2, Literal (CHR ''-''),
      Verb_x 2, Verb_x 2, Literal (CHR ''-''),
      Verb_x 2, Verb_x 2, Literal (CHR ''-''),
      Verb_x 2, Verb_x 2, Literal (CHR ''-''),
      Verb_x 2, Verb_x 2, Verb_x 2, Verb_x 2, Verb_x 2, Verb_x 2]"

text \<open>
  \<^verbatim>\<open>func (u *UUID) Parse(s string) bool\<close> scans into \<^verbatim>\<open>&u.u[0]\<close>, ...,
  \<^verbatim>\<open>&u.u[15]\<close> and returns \<^verbatim>\<open>err != nil\<close>: the result is the receiver after the
  call and a flag that is true exactly when the scan returned an error.
\<close>

definition Parse_m :: "string \<Rightarrow> UUID \<Rightarrow> UUID \<times> bool" where
  "Parse_m s x =
     (case Sscanf s uuid_format [0, 1, 2, 3, 4, 5, 6, 7, 8, 9, 10, 11, 12, 13, 14, 15] (u x) of
        (b, err) \<Rightarrow> (x\<lparr>u := b\<rparr>, err \<noteq> None))"

text \<open>
  \<^verbatim>\<open>func Parse(s string) (UUID, bool)\<close>: the method on a fresh zero value; the
  function names the flag \<^verbatim>\<open>err\<close>.
\<close>

definition Parse :: "string \<Rightarrow> UUID \<times> bool" where
  "Parse s = Parse_m s \<lparr>u = replicate 16 0\<rparr>"

section \<open>Vocabulary of the properties\<close>

text \<open>
  The characters that \<^verbatim>\<open>%x\<close> scans as digits, the value of one, and the byte that
  two of them denote.
\<close>

definition is_hex :: "char \<Rightarrow> bool" where
  "is_hex c \<longleftrightarrow> c \<in> set hexadecimalDigits"

definition hex_val :: "char \<Rightarrow> nat" where
  "hex_val c = the (hex_digit (of_char c))"

definition hex_byte :: "char \<Rightarrow> char \<Rightarrow> byte" where
  "hex_byte c1 c2 = of_nat (16 * hex_val c1 + hex_val c2)"

text \<open>
  The canonical form in the words of the specification: 36 characters, hyphens at
  the positions 8, 13, 18 and 23, lower-case hexadecimal digits elsewhere.
\<close>

definition lower_hex :: "char \<Rightarrow> bool" where
  "lower_hex c \<longleftrightarrow> c \<in> set ''0123456789abcdef''"


text \<open>
  The name-based identifier in the words of the specification: the first 16 bytes of
  the digest of the namespace bytes followed by the name, with the version nibble of
  byte 6 and the top two bits of byte 8 overwritten.
\<close>

definition spec_name_based :: "(byte list \<Rightarrow> byte list) \<Rightarrow> byte \<Rightarrow> Namespace \<Rightarrow> string \<Rightarrow> byte list" where
  "spec_name_based digest version ns name =
     (let d = take 16 (digest (u ns @ map of_char name))
      in d[6 := (d ! 6 AND 0x0f) OR push_bit 4 version, 8 := (d ! 8 AND 0x3f) OR 0x80])"

text \<open>The number of verbs of a format, and whether a directive is a verb.\<close>

fun count_verbs :: "directive list \<Rightarrow> nat" where
  "count_verbs [] = 0"
| "count_verbs (Verb_x w # format) = Suc (count_verbs format)"
| "count_verbs (Literal c # format) = count_verbs format"

fun is_verb :: "directive \<Rightarrow> bool" where
  "is_verb (Verb_x w) = True"
| "is_verb (Literal c) = False"




text \<open>
  The text that a format stands for, given the bytes for its verbs: two digits for
  each verb, its character for each literal. For the format of \<^verbatim>\<open>Parse\<close> and
  sixteen bytes it is the canonical string; for the first directives of that format
  it is the beginning of the canonical string.
\<close>

fun text_of :: "directive list \<Rightarrow> byte list \<Rightarrow> string" where
  "text_of [] vs = []"
| "text_of (Literal c # format) vs = c # text_of format vs"
| "text_of (Verb_x w # format) [] = []"
| "text_of (Verb_x w # format) (v # vs) = fmt_02x v @ text_of format vs"

text \<open>
  An input on which a directive is certain to fail: the empty input, or one that
  begins with an ASCII character which for a verb is no hexadecimal digit and no
  space to skip (a newline is not skipped, it is an error), and for a literal is
  another character than the literal.
\<close>

definition stops :: "directive \<Rightarrow> string \<Rightarrow> bool" where
  "stops d t \<longleftrightarrow>
     (case t of
        [] \<Rightarrow> True
      | c # t' \<Rightarrow>
          (of_char c :: nat) < 128 \<and>
          (case d of
             Verb_x w \<Rightarrow> \<not> is_hex c \<and> (c = CHR 0x0A \<or> \<not> isSpace (of_char c))
           | Literal l \<Rightarrow> c \<noteq> l))"

text \<open>The scan of the first directive of \<^verbatim>\<open>Parse\<close>, a verb of width 2, fails.\<close>

definition first_directive_fails :: "string \<Rightarrow> bool" where
  "first_directive_fails s \<longleftrightarrow>
     (case SkipSpace hugeWid \<lparr>rs = s, count = 0\<rparr> of
        Inl e \<Rightarrow> True
      | Inr s1 \<Rightarrow>
          (case scanUint (min hugeWid (count s1 + 2)) 8 s1 of
             Inl e \<Rightarrow> True
           | Inr r \<Rightarrow> False))"

text \<open>
  The recursive equations of the scanner are unfolded where a proof asks for them.
\<close>

declare SkipSpace.simps [simp del] accept_loop.simps [simp del] doScanf.simps [simp del]

section \<open>Properties\<close>

subsection \<open>Scanning two hexadecimal digits\<close>

lemma is_hex_props:
  assumes "is_hex c"
  shows "(of_char c :: nat) < 128 \<and> indexRune hexadecimalDigits (of_char c) \<and>
    \<not> isSpace (of_char c) \<and> (of_char c :: nat) \<noteq> 10 \<and> (of_char c :: nat) \<noteq> 13 \<and>
    hex_digit (of_char c) = Some (hex_val c) \<and> hex_val c < 16"
proof -
  from assms have "c = CHR ''0'' \<or> c = CHR ''1'' \<or> c = CHR ''2'' \<or> c = CHR ''3'' \<or> c = CHR ''4'' \<or>
      c = CHR ''5'' \<or> c = CHR ''6'' \<or> c = CHR ''7'' \<or> c = CHR ''8'' \<or> c = CHR ''9'' \<or>
      c = CHR ''a'' \<or> c = CHR ''A'' \<or> c = CHR ''b'' \<or> c = CHR ''B'' \<or> c = CHR ''c'' \<or>
      c = CHR ''C'' \<or> c = CHR ''d'' \<or> c = CHR ''D'' \<or> c = CHR ''e'' \<or> c = CHR ''E'' \<or>
      c = CHR ''f'' \<or> c = CHR ''F''"
    by (simp add: is_hex_def hexadecimalDigits_def)
  then show ?thesis
    by (elim disjE)
      (simp_all add: indexRune_def hexadecimalDigits_def isSpace_def hex_digit_def hex_val_def)
qed

lemma ReadRune_ascii:
  "(of_char c :: nat) < 128 \<Longrightarrow> n < lim \<Longrightarrow>
   ReadRune lim \<lparr>rs = c # rest, count = n\<rparr> = Some (of_char c, \<lparr>rs = rest, count = Suc n\<rparr>)"
  by (simp add: ReadRune_def)

lemma ReadRune_limit:
  "lim \<le> n \<Longrightarrow> ReadRune lim \<lparr>rs = inp, count = n\<rparr> = None"
  by (simp add: ReadRune_def)

lemma SkipSpace_hex:
  "is_hex c \<Longrightarrow> SkipSpace lim \<lparr>rs = c # rest, count = n\<rparr> = Inr \<lparr>rs = c # rest, count = n\<rparr>"
  by (cases "n < lim")
    (simp_all add: SkipSpace.simps [of lim] is_hex_props ReadRune_ascii ReadRune_limit)

lemma accept_loop_limit:
  "lim \<le> n \<Longrightarrow> accept_loop lim ok \<lparr>rs = inp, count = n\<rparr> buf = (buf, \<lparr>rs = inp, count = n\<rparr>)"
  by (simp add: accept_loop.simps [of lim] ReadRune_limit)

lemma scanNumber_hex2:
  assumes "is_hex c1" "is_hex c2"
  shows "scanNumber (Suc (Suc n)) hexadecimalDigits \<lparr>rs = c1 # c2 # rest, count = n\<rparr> =
           Inr ([of_char c1, of_char c2], \<lparr>rs = rest, count = Suc (Suc n)\<rparr>)"
  using assms
  by (simp add: scanNumber_def is_hex_props ReadRune_ascii accept_loop_limit
      accept_loop.simps [of _ _ "\<lparr>rs = c2 # rest, count = Suc n\<rparr>"])

lemma ParseUint_hex2:
  assumes "is_hex c1" "is_hex c2"
  shows "ParseUint [of_char c1, of_char c2] = Inr (16 * hex_val c1 + hex_val c2)"
proof -
  from assms have "hex_val c1 < 16" and "hex_val c2 < 16"
    by (simp_all add: is_hex_props)
  then have "16 * hex_val c1 + hex_val c2 < 2 ^ 64"
    by simp
  then show ?thesis
    using assms by (simp add: ParseUint_def is_hex_props)
qed

lemma scanUint_hex2:
  assumes "is_hex c1" "is_hex c2"
  shows "scanUint (Suc (Suc n)) 8 \<lparr>rs = c1 # c2 # rest, count = n\<rparr> =
           Inr (16 * hex_val c1 + hex_val c2, \<lparr>rs = rest, count = Suc (Suc n)\<rparr>)"
proof -
  from assms have "hex_val c1 < 16" and "hex_val c2 < 16"
    by (simp_all add: is_hex_props)
  then have "16 * hex_val c1 + hex_val c2 < 256"
    by simp
  then show ?thesis
    using assms
    by (simp add: scanUint_def SkipSpace_hex scanNumber_hex2 ParseUint_hex2
        ReadRune_ascii is_hex_props)
qed

lemma doScanf_Verb_hex2:
  assumes "is_hex c1" "is_hex c2" "Suc (Suc n) \<le> hugeWid"
  shows "doScanf (Verb_x 2 # format) (arg # a) \<lparr>rs = c1 # c2 # rest, count = n\<rparr> b =
           doScanf format a \<lparr>rs = rest, count = Suc (Suc n)\<rparr> (b[arg := hex_byte c1 c2])"
proof -
  have "min hugeWid (Suc (Suc n)) = Suc (Suc n)"
    using assms(3) by simp
  then show ?thesis
    using assms(1,2) by (simp add: doScanf.simps SkipSpace_hex scanUint_hex2 hex_byte_def)
qed

lemma doScanf_Literal:
  assumes "(of_char c :: nat) < 128" "n < hugeWid"
  shows "doScanf (Literal c # format) a \<lparr>rs = c # rest, count = n\<rparr> b =
           doScanf format a \<lparr>rs = rest, count = Suc n\<rparr> b"
  using assms by (simp add: doScanf.simps ReadRune_ascii)

subsection \<open>Two digits and a byte\<close>

lemma unat_nibbles:
  fixes b :: byte
  shows "unat (drop_bit 4 b) = unat b div 16" and "unat (b AND 0xf) = unat b mod 16"
proof -
  show "unat (drop_bit 4 b) = unat b div 16"
    by (simp add: drop_bit_eq_div unat_div)
  have "b AND 0xf = take_bit 4 b"
    by (simp add: take_bit_eq_mask mask_eq_exp_minus_1)
  then show "unat (b AND 0xf) = unat b mod 16"
    by (simp add: take_bit_eq_mod unat_mod)
qed

lemma ldigits_nth:
  assumes "k < 16"
  shows "is_hex (ldigits ! k) \<and> lower_hex (ldigits ! k) \<and> hex_val (ldigits ! k) = k"
proof -
  from assms have "k = 0 \<or> k = 1 \<or> k = 2 \<or> k = 3 \<or> k = 4 \<or> k = 5 \<or> k = 6 \<or> k = 7 \<or>
      k = 8 \<or> k = 9 \<or> k = 10 \<or> k = 11 \<or> k = 12 \<or> k = 13 \<or> k = 14 \<or> k = 15"
    by arith
  then show ?thesis
    by (elim disjE)
      (simp_all add: ldigits_def is_hex_def lower_hex_def hexadecimalDigits_def hex_val_def
        hex_digit_def)
qed

lemma fmt_02x_chars:
  "\<exists>c1 c2. fmt_02x b = [c1, c2] \<and> is_hex c1 \<and> is_hex c2 \<and> hex_byte c1 c2 = b"
proof -
  have "unat b < 256"
    using unsigned_less [of b, where 'a = nat] by simp
  then have "unat b div 16 < 16" and "unat b mod 16 < 16"
    by simp_all
  with ldigits_nth [of "unat b div 16"] ldigits_nth [of "unat b mod 16"]
  have h: "is_hex (ldigits ! (unat b div 16))" "is_hex (ldigits ! (unat b mod 16))"
    and v: "16 * hex_val (ldigits ! (unat b div 16)) + hex_val (ldigits ! (unat b mod 16)) = unat b"
    by simp_all
  have "hex_byte (ldigits ! (unat b div 16)) (ldigits ! (unat b mod 16)) = of_nat (unat b)"
    by (simp only: hex_byte_def v)
  then have "hex_byte (ldigits ! (unat b div 16)) (ldigits ! (unat b mod 16)) = b"
    by simp
  with h show ?thesis
    by (simp add: fmt_02x_def unat_nibbles)
qed

lemma doScanf_Verb_fmt_02x:
  assumes "Suc (Suc n) \<le> hugeWid"
  shows "doScanf (Verb_x 2 # format) (arg # a) \<lparr>rs = fmt_02x v @ rest, count = n\<rparr> b =
           doScanf format a \<lparr>rs = rest, count = Suc (Suc n)\<rparr> (b[arg := v])"
proof -
  obtain c1 c2 where c: "fmt_02x v = [c1, c2]" "is_hex c1" "is_hex c2" "hex_byte c1 c2 = v"
    using fmt_02x_chars [of v] by blast
  from doScanf_Verb_hex2 [OF c(2,3) assms, of format arg a rest b] c(1,4)
  show ?thesis by simp
qed

lemma doScanf_Verb_fmt_02x_last:
  assumes "Suc (Suc n) \<le> hugeWid"
  shows "doScanf (Verb_x 2 # format) (arg # a) \<lparr>rs = fmt_02x v, count = n\<rparr> b =
           doScanf format a \<lparr>rs = [], count = Suc (Suc n)\<rparr> (b[arg := v])"
  using doScanf_Verb_fmt_02x [OF assms, of format arg a v "[]" b] by simp

lemma length_16_explicit:
  "length xs = 16 \<Longrightarrow>
   \<exists>a0 a1 a2 a3 a4 a5 a6 a7 a8 a9 a10 a11 a12 a13 a14 a15.
     xs = [a0, a1, a2, a3, a4, a5, a6, a7, a8, a9, a10, a11, a12, a13, a14, a15]"
  by (simp add: eval_nat_numeral length_Suc_conv) blast

lemma overwrite_all_16:
  assumes "length xs = 16" "length ys = 16"
  shows "ys[0 := xs ! 0, 1 := xs ! 1, 2 := xs ! 2, 3 := xs ! 3, 4 := xs ! 4, 5 := xs ! 5,
            6 := xs ! 6, 7 := xs ! 7, 8 := xs ! 8, 9 := xs ! 9, 10 := xs ! 10, 11 := xs ! 11,
            12 := xs ! 12, 13 := xs ! 13, 14 := xs ! 14, 15 := xs ! 15] = xs"
proof -
  from length_16_explicit [OF assms(1)] length_16_explicit [OF assms(2)]
  show ?thesis by auto
qed

lemma Parse_m_String:
  assumes "length (u x) = 16" "length (u y) = 16"
  shows "Parse_m (String x) y = (y\<lparr>u := u x\<rparr>, False)"
  using overwrite_all_16 [OF assms]
  by (simp add: Parse_m_def Sscanf_def uuid_format_def String_def hugeWid_def
      doScanf_Verb_fmt_02x doScanf_Verb_fmt_02x_last doScanf_Literal doScanf.simps(1))

lemma replicate_16:
  "replicate 16 x = [x, x, x, x, x, x, x, x, x, x, x, x, x, x, x, x]"
  by (simp add: eval_nat_numeral)

lemmas scan_eval = Parse_def Parse_m_def Sscanf_def uuid_format_def doScanf.simps SkipSpace.simps
  accept_loop.simps scanUint_def scanNumber_def ReadRune_def peek_def isSpace_def indexRune_def
  hexadecimalDigits_def hex_digit_def ParseUint_def hugeWid_def replicate_16

subsection \<open>Round trip\<close>

text \<open>
  Claim C1 (round trip). For every identifier, all values of its sixteen bytes
  included, parsing the string that \<^verbatim>\<open>String\<close> produces gives the identifier back,
  byte for byte: the function \<^verbatim>\<open>Parse\<close> returns it with the error flag false, and
  the method \<^verbatim>\<open>Parse\<close> overwrites any receiver with its bytes.
\<close>

theorem Parse_String_roundtrip:
  assumes "length (u x) = 16"
  shows "Parse (String x) = (x, False) \<and>
    (length (u y) = 16 \<longrightarrow> Parse_m (String x) y = (y\<lparr>u := u x\<rparr>, False))"
  using Parse_m_String [OF assms, of "\<lparr>u = replicate 16 0\<rparr>"] Parse_m_String [OF assms, of y]
  by (simp add: Parse_def)

theorem Parse_String_roundtrip_witness:
  "length (u \<lparr>u = [0xd1, 0x72, 0x38, 0x94, 0x5f, 0xe7, 0x11, 0xe7, 0x90, 0x7b, 0xa6, 0x00, 0x6a, 0xd3, 0xdb, 0xa0]\<rparr>) = 16 \<and>
   Parse ''d1723894-5fe7-11e7-907b-a6006ad3dba0'' =
     (\<lparr>u = [0xd1, 0x72, 0x38, 0x94, 0x5f, 0xe7, 0x11, 0xe7, 0x90, 0x7b, 0xa6, 0x00, 0x6a, 0xd3, 0xdb, 0xa0]\<rparr>, False)"
  using Parse_String_roundtrip [of "\<lparr>u = [0xd1, 0x72, 0x38, 0x94, 0x5f, 0xe7, 0x11, 0xe7, 0x90, 0x7b, 0xa6, 0x00, 0x6a, 0xd3, 0xdb, 0xa0]\<rparr>"]
  by (simp add: String_def fmt_02x_def ldigits_def)

subsection \<open>What Parse accepts\<close>










subsection \<open>What a successful scan has read\<close>















subsection \<open>The beginning of a canonical string\<close>

lemma indexRune_is_hex:
  "indexRune hexadecimalDigits (of_char c) \<longleftrightarrow> is_hex c"
  by (auto simp: indexRune_def is_hex_def)

lemma stops_Verb:
  assumes "stops (Verb_x 2) t"
  shows "fst (doScanf (Verb_x 2 # format) a \<lparr>rs = t, count = n\<rparr> b) = b \<and>
    snd (doScanf (Verb_x 2 # format) a \<lparr>rs = t, count = n\<rparr> b) \<noteq> None"
proof (cases t)
  case Nil
  then show ?thesis
    by (simp add: doScanf.simps SkipSpace.simps [of _ "\<lparr>rs = [], count = n\<rparr>"] ReadRune_def
        scanUint_def split: list.splits)
next
  case (Cons c t')
  with assms have c: "(of_char c :: nat) < 128" "\<not> is_hex c"
    "c = CHR 0x0A \<or> \<not> isSpace (of_char c)"
    by (simp_all add: stops_def)
  have rd: "ReadRune lim \<lparr>rs = c # t', count = n\<rparr> =
      (if lim \<le> n then None else Some (of_char c, \<lparr>rs = t', count = Suc n\<rparr>))" for lim
    using c(1) by (simp add: ReadRune_def)
  have nsp: "(of_char c :: nat) = 13 \<Longrightarrow> False"
    using c(3) by (auto simp: isSpace_def)
  have sk: "SkipSpace lim \<lparr>rs = c # t', count = n\<rparr> = Inr \<lparr>rs = c # t', count = n\<rparr> \<or>
      SkipSpace lim \<lparr>rs = c # t', count = n\<rparr> = Inl UnexpectedNewline" for lim
    using c(3) nsp
    by (cases "lim \<le> n")
      (auto simp: SkipSpace.simps [of lim "\<lparr>rs = c # t', count = n\<rparr>"] rd)
  have su: "\<exists>e. scanUint lim 8 \<lparr>rs = c # t', count = n\<rparr> = Inl e" for lim
    using sk [of lim] c(2)
    by (cases "lim \<le> n") (auto simp: scanUint_def scanNumber_def rd indexRune_is_hex)
  from sk [of hugeWid] su [of "min hugeWid (n + 2)"] Cons show ?thesis
    by (cases a) (auto simp: doScanf.simps)
qed

lemma stops_Literal:
  assumes "stops (Literal l) t" "(of_char l :: nat) < 128"
  shows "fst (doScanf (Literal l # format) a \<lparr>rs = t, count = n\<rparr> b) = b \<and>
    snd (doScanf (Literal l # format) a \<lparr>rs = t, count = n\<rparr> b) \<noteq> None"
proof (cases t)
  case Nil
  then show ?thesis
    by (simp add: doScanf.simps ReadRune_def)
next
  case (Cons c t')
  with assms have c: "(of_char c :: nat) < 128" "c \<noteq> l"
    by (simp_all add: stops_def)
  then have "ReadRune hugeWid \<lparr>rs = c # t', count = n\<rparr> =
      (if hugeWid \<le> n then None else Some (of_char c, \<lparr>rs = t', count = Suc n\<rparr>))"
    by (simp add: ReadRune_def)
  with c(2) Cons show ?thesis
    by (simp add: doScanf.simps)
qed

lemma stops_uuid_format:
  assumes "m < 20" "stops (uuid_format ! m) t"
  shows "fst (doScanf (drop m uuid_format) a \<lparr>rs = t, count = n\<rparr> b) = b \<and>
    snd (doScanf (drop m uuid_format) a \<lparr>rs = t, count = n\<rparr> b) \<noteq> None"
proof -
  from assms(1) have "m = 0 \<or> m = 1 \<or> m = 2 \<or> m = 3 \<or> m = 4 \<or> m = 5 \<or> m = 6 \<or> m = 7 \<or> m = 8 \<or> m = 9 \<or> m = 10 \<or> m = 11 \<or> m = 12 \<or> m = 13 \<or> m = 14 \<or> m = 15 \<or> m = 16 \<or> m = 17 \<or> m = 18 \<or> m = 19"
    by arith
  then obtain d format where d: "drop m uuid_format = d # format" "uuid_format ! m = d"
    "d = Verb_x 2 \<or> d = Literal (CHR ''-'')"
    by (elim disjE) (simp_all add: uuid_format_def)
  from d(3) show ?thesis
  proof
    assume "d = Verb_x 2"
    with assms(2) d(1,2) stops_Verb [of t format a n b] show ?thesis
      by simp
  next
    assume "d = Literal (CHR ''-'')"
    with assms(2) d(1,2) stops_Literal [of "CHR ''-''" t format a n b] show ?thesis
      by simp
  qed
qed

lemma doScanf_text_of:
  assumes "m < 20" "length vs = 16" "length b = 16"
  shows "doScanf uuid_format [0, 1, 2, 3, 4, 5, 6, 7, 8, 9, 10, 11, 12, 13, 14, 15]
      \<lparr>rs = text_of (take m uuid_format) vs @ t, count = 0\<rparr> b =
    doScanf (drop m uuid_format)
      (drop (count_verbs (take m uuid_format)) [0, 1, 2, 3, 4, 5, 6, 7, 8, 9, 10, 11, 12, 13, 14, 15])
      \<lparr>rs = t, count = m + count_verbs (take m uuid_format)\<rparr>
      (take (count_verbs (take m uuid_format)) vs @ drop (count_verbs (take m uuid_format)) b)"
proof -
  from assms(1) have "m = 0 \<or> m = 1 \<or> m = 2 \<or> m = 3 \<or> m = 4 \<or> m = 5 \<or> m = 6 \<or> m = 7 \<or> m = 8 \<or> m = 9 \<or> m = 10 \<or> m = 11 \<or> m = 12 \<or> m = 13 \<or> m = 14 \<or> m = 15 \<or> m = 16 \<or> m = 17 \<or> m = 18 \<or> m = 19"
    by arith
  moreover from length_16_explicit [OF assms(2)]
  obtain v0 v1 v2 v3 v4 v5 v6 v7 v8 v9 v10 v11 v12 v13 v14 v15
    where "vs = [v0, v1, v2, v3, v4, v5, v6, v7, v8, v9, v10, v11, v12, v13, v14, v15]"
    by blast
  moreover from length_16_explicit [OF assms(3)]
  obtain b0 b1 b2 b3 b4 b5 b6 b7 b8 b9 b10 b11 b12 b13 b14 b15
    where "b = [b0, b1, b2, b3, b4, b5, b6, b7, b8, b9, b10, b11, b12, b13, b14, b15]"
    by blast
  ultimately show ?thesis
    apply (elim disjE)
    apply (simp_all add: uuid_format_def hugeWid_def doScanf_Verb_fmt_02x doScanf_Literal)
    apply (simp_all add: eval_nat_numeral)
    done
qed

lemma Parse_m_text_of:
  assumes "m < 20" "length (u y) = 16" "length (u x) = 16" "stops (uuid_format ! m) t"
  shows "Parse_m (text_of (take m uuid_format) (u y) @ t) x =
    (x\<lparr>u := take (count_verbs (take m uuid_format)) (u y) @
              drop (count_verbs (take m uuid_format)) (u x)\<rparr>, True)"
proof -
  let ?k = "count_verbs (take m uuid_format)"
  let ?r = "Sscanf (text_of (take m uuid_format) (u y) @ t) uuid_format
      [0, 1, 2, 3, 4, 5, 6, 7, 8, 9, 10, 11, 12, 13, 14, 15] (u x)"
  let ?d = "doScanf (drop m uuid_format)
      (drop ?k [0, 1, 2, 3, 4, 5, 6, 7, 8, 9, 10, 11, 12, 13, 14, 15])
      \<lparr>rs = t, count = m + ?k\<rparr> (take ?k (u y) @ drop ?k (u x))"
  have eq: "?r = ?d"
    unfolding Sscanf_def by (rule doScanf_text_of [OF assms(1-3)])
  have st: "fst ?d = take ?k (u y) @ drop ?k (u x) \<and> snd ?d \<noteq> None"
    by (rule stops_uuid_format [OF assms(1,4)])
  from st have "fst ?r = take ?k (u y) @ drop ?k (u x)" and "snd ?r \<noteq> None"
    unfolding eq by blast+
  then show ?thesis
    unfolding Parse_m_def case_prod_beta by (simp only: simp_thms)
qed

lemma text_of_String:
  assumes "m \<le> 20" "length (u y) = 16"
  shows "text_of (take m uuid_format) (u y) =
    take (m + count_verbs (take m uuid_format)) (String y)"
proof -
  from assms(1) have "m = 0 \<or> m = 1 \<or> m = 2 \<or> m = 3 \<or> m = 4 \<or> m = 5 \<or> m = 6 \<or> m = 7 \<or> m = 8 \<or> m = 9 \<or> m = 10 \<or> m = 11 \<or> m = 12 \<or> m = 13 \<or> m = 14 \<or> m = 15 \<or> m = 16 \<or> m = 17 \<or> m = 18 \<or> m = 19 \<or> m = 20"
    by arith
  moreover from length_16_explicit [OF assms(2)]
  obtain v0 v1 v2 v3 v4 v5 v6 v7 v8 v9 v10 v11 v12 v13 v14 v15
    where "u y = [v0, v1, v2, v3, v4, v5, v6, v7, v8, v9, v10, v11, v12, v13, v14, v15]"
    by blast
  ultimately show ?thesis
    by (elim disjE) (simp_all add: uuid_format_def String_def fmt_02x_def)
qed

lemma Parse_m_canonical_prefix:
  assumes "m < 20" "length (u y) = 16" "length (u x) = 16" "stops (uuid_format ! m) t"
  shows "Parse_m (take (m + count_verbs (take m uuid_format)) (String y) @ t) x =
    (x\<lparr>u := take (count_verbs (take m uuid_format)) (u y) @
              drop (count_verbs (take m uuid_format)) (u x)\<rparr>, True)"
proof -
  from assms(1) have "m \<le> 20"
    by simp
  from text_of_String [OF this assms(2)] Parse_m_text_of [OF assms] show ?thesis
    by (simp only:)
qed

subsection \<open>Accepted and rejected strings\<close>






subsection \<open>What a failed Parse leaves behind\<close>

lemma count_verbs_last:
  "format \<noteq> [] \<Longrightarrow> is_verb (last format) \<Longrightarrow> 0 < count_verbs format"
  by (induction format rule: count_verbs.induct) (auto split: if_splits)

lemma doScanf_failure_frame:
  assumes "doScanf format a s b = (b', Some e)" "count_verbs format = length a"
    "format \<noteq> []" "is_verb (last format)"
  shows "length b' = length b \<and> (\<exists>k<length a. \<forall>i. i \<notin> set (take k a) \<longrightarrow> b' ! i = b ! i)"
  using assms
proof (induction format arbitrary: a s b)
  case Nil
  then show ?case by simp
next
  case (Cons d format)
  from Cons.prems(2-4) count_verbs_last [of "d # format"] have a_ne: "0 < length a"
    by simp
  show ?case
  proof (cases d)
    case (Literal c)
    with Cons.prems(3,4) have f: "format \<noteq> []" "is_verb (last format)"
      by (auto split: if_splits)
    from Cons.prems(2) Literal have cnt: "count_verbs format = length a"
      by simp
    show ?thesis
    proof (cases "\<exists>s'. ReadRune hugeWid s = Some (of_char c, s')")
      case True
      then obtain s' where "ReadRune hugeWid s = Some (of_char c, s')" ..
      with Cons.prems(1) Literal have "doScanf format a s' b = (b', Some e)"
        by (simp add: doScanf.simps)
      from Cons.IH [OF this cnt f] show ?thesis .
    next
      case False
      with Cons.prems(1) Literal have "b' = b"
        by (auto simp: doScanf.simps split: option.splits if_splits)
      with a_ne show ?thesis
        by auto
    qed
  next
    case (Verb_x w)
    from a_ne obtain arg a' where a: "a = arg # a'"
      by (cases a) auto
    show ?thesis
    proof (cases "\<exists>s1 v s2. SkipSpace hugeWid s = Inr s1 \<and>
        scanUint (min hugeWid (count s1 + w)) 8 s1 = Inr (v, s2)")
      case True
      then obtain s1 v s2 where sc: "SkipSpace hugeWid s = Inr s1"
        "scanUint (min hugeWid (count s1 + w)) 8 s1 = Inr (v, s2)"
        by blast
      with Cons.prems(1) Verb_x a
      have rec: "doScanf format a' s2 (b[arg := of_nat v]) = (b', Some e)"
        by (simp add: doScanf.simps)
      from Cons.prems(2) Verb_x a have cnt: "count_verbs format = length a'"
        by simp
      have f: "format \<noteq> []"
      proof
        assume "format = []"
        with cnt rec show False
          by (simp add: doScanf.simps)
      qed
      with Cons.prems(4) have "is_verb (last format)"
        by simp
      from Cons.IH [OF rec cnt f this]
      obtain k where k: "length b' = length b" "k < length a'"
        "\<forall>i. i \<notin> set (take k a') \<longrightarrow> b' ! i = b[arg := of_nat v] ! i"
        by auto
      from k(3) have "\<forall>i. i \<notin> set (take (Suc k) a) \<longrightarrow> b' ! i = b ! i"
        by (simp add: a)
      with k(1,2) a show ?thesis
        by (intro conjI exI [of _ "Suc k"]) simp_all
    next
      case False
      with Cons.prems(1) Verb_x a have "b' = b"
        by (auto simp: doScanf.simps split: sum.splits)
      with a_ne show ?thesis
        by auto
    qed
  qed
qed

lemma Parse_m_failure:
  assumes "snd (Parse_m s x)"
  shows "length (u (fst (Parse_m s x))) = length (u x) \<and>
    (\<exists>k<16. \<forall>i\<ge>k. u (fst (Parse_m s x)) ! i = u x ! i)"
proof -
  let ?a = "[0, 1, 2, 3, 4, 5, 6, 7, 8, 9, 10, 11, 12, 13, 14, 15 :: nat]"
  obtain b' err where r: "Sscanf s uuid_format ?a (u x) = (b', err)"
    by (cases "Sscanf s uuid_format ?a (u x)")
  with assms obtain e where e: "err = Some e"
    by (auto simp: Parse_m_def)
  have a: "?a = [0..<16]"
    by code_simp
  have f: "count_verbs uuid_format = length ?a" "uuid_format \<noteq> []" "is_verb (last uuid_format)"
    by (simp_all add: uuid_format_def)
  have la: "length ?a = 16"
    by simp
  from r e have "doScanf uuid_format ?a \<lparr>rs = s, count = 0\<rparr> (u x) = (b', Some e)"
    by (simp add: Sscanf_def)
  from doScanf_failure_frame [OF this f]
  obtain k where k': "length b' = length (u x)" "k < length ?a"
    "\<forall>i. i \<notin> set (take k ?a) \<longrightarrow> b' ! i = u x ! i"
    by blast
  from k'(2) la have "k < 16"
    by (simp only:)
  note k = k'(1) this k'(3)
  have "i \<notin> set (take k ?a)" if "k \<le> i" for i
    using that k(2) by (simp only: a take_upt) simp
  with k(3) have "\<forall>i\<ge>k. b' ! i = u x ! i"
    by blast
  with k(1,2) r show ?thesis
    by (auto simp: Parse_m_def)
qed

lemma doScanf_failure_prefix:
  assumes "doScanf format a s b = (b', Some e)" "count_verbs format = length a"
  shows "\<exists>j<length format.
    doScanf (take j format) (take (count_verbs (take j format)) a) s b = (b', None) \<and>
    snd (doScanf (take (Suc j) format) (take (count_verbs (take (Suc j) format)) a) s b) \<noteq> None"
  using assms
proof (induction format a s b rule: doScanf.induct)
  case (1 a s b)
  then show ?case
    by (simp add: doScanf.simps)
next
  case (2 c format a s b)
  show ?case
  proof (cases "ReadRune hugeWid s")
    case None
    with 2(2) have "doScanf (take 0 (Literal c # format))
        (take (count_verbs (take 0 (Literal c # format))) a) s b = (b', None)"
      by (simp add: doScanf.simps)
    moreover from None have "snd (doScanf (take (Suc 0) (Literal c # format))
        (take (count_verbs (take (Suc 0) (Literal c # format))) a) s b) \<noteq> None"
      by (simp add: doScanf.simps)
    ultimately show ?thesis
      by (intro exI [of _ 0]) simp
  next
    case (Some p)
    obtain r s' where p: "p = (r, s')"
      by (cases p)
    show ?thesis
    proof (cases "of_char c = r")
      case False
      with 2(2) Some p have "doScanf (take 0 (Literal c # format))
          (take (count_verbs (take 0 (Literal c # format))) a) s b = (b', None)"
        by (simp add: doScanf.simps)
      moreover from False Some p have "snd (doScanf (take (Suc 0) (Literal c # format))
          (take (count_verbs (take (Suc 0) (Literal c # format))) a) s b) \<noteq> None"
        by (simp add: doScanf.simps)
      ultimately show ?thesis
        by (intro exI [of _ 0]) simp
    next
      case True
      with 2(2) Some p have "doScanf format a s' b = (b', Some e)"
        by (simp add: doScanf.simps)
      moreover from 2(3) have "count_verbs format = length a"
        by simp
      ultimately obtain j where j: "j < length format"
        "doScanf (take j format) (take (count_verbs (take j format)) a) s' b = (b', None)"
        "snd (doScanf (take (Suc j) format) (take (count_verbs (take (Suc j) format)) a) s' b) \<noteq> None"
        using 2(1) [OF Some p [symmetric]] True by blast
      from j(2) Some p True have "doScanf (take (Suc j) (Literal c # format))
          (take (count_verbs (take (Suc j) (Literal c # format))) a) s b = (b', None)"
        by (simp add: doScanf.simps)
      moreover from j(3) Some p True
      have "snd (doScanf (take (Suc (Suc j)) (Literal c # format))
          (take (count_verbs (take (Suc (Suc j)) (Literal c # format))) a) s b) \<noteq> None"
        by (simp add: doScanf.simps)
      ultimately show ?thesis
        using j(1) by (intro exI [of _ "Suc j"]) simp
    qed
  qed
next
  case (3 maxWid format a s b)
  from 3(3) obtain arg a' where a: "a = arg # a'" "count_verbs format = length a'"
    by (cases a) simp_all
  show ?case
  proof (cases "SkipSpace hugeWid s")
    case (Inl e')
    with 3(2) have "doScanf (take 0 (Verb_x maxWid # format))
        (take (count_verbs (take 0 (Verb_x maxWid # format))) a) s b = (b', None)"
      by (simp add: doScanf.simps)
    moreover from Inl have "snd (doScanf (take (Suc 0) (Verb_x maxWid # format))
        (take (count_verbs (take (Suc 0) (Verb_x maxWid # format))) a) s b) \<noteq> None"
      by (simp add: doScanf.simps)
    ultimately show ?thesis
      by (intro exI [of _ 0]) simp
  next
    case (Inr s1)
    show ?thesis
    proof (cases "scanUint (min hugeWid (count s1 + maxWid)) 8 s1")
      case (Inl e')
      with 3(2) Inr a have "doScanf (take 0 (Verb_x maxWid # format))
          (take (count_verbs (take 0 (Verb_x maxWid # format))) a) s b = (b', None)"
        by (simp add: doScanf.simps)
      moreover from Inl Inr a have "snd (doScanf (take (Suc 0) (Verb_x maxWid # format))
          (take (count_verbs (take (Suc 0) (Verb_x maxWid # format))) a) s b) \<noteq> None"
        by (simp add: doScanf.simps)
      ultimately show ?thesis
        by (intro exI [of _ 0]) simp
    next
      case (Inr p)
      obtain i s2 where p: "p = (i, s2)"
        by (cases p)
      from 3(2) \<open>SkipSpace hugeWid s = Inr s1\<close> Inr p a
      have "doScanf format a' s2 (b[arg := of_nat i]) = (b', Some e)"
        by (simp add: doScanf.simps)
      with 3(1) [OF \<open>SkipSpace hugeWid s = Inr s1\<close> a(1) Inr p [symmetric]] a(2)
      obtain j where j: "j < length format"
        "doScanf (take j format) (take (count_verbs (take j format)) a') s2 (b[arg := of_nat i]) =
           (b', None)"
        "snd (doScanf (take (Suc j) format) (take (count_verbs (take (Suc j) format)) a') s2
           (b[arg := of_nat i])) \<noteq> None"
        by blast
      from j(2) \<open>SkipSpace hugeWid s = Inr s1\<close> Inr p a
      have "doScanf (take (Suc j) (Verb_x maxWid # format))
          (take (count_verbs (take (Suc j) (Verb_x maxWid # format))) a) s b = (b', None)"
        by (simp add: doScanf.simps)
      moreover from j(3) \<open>SkipSpace hugeWid s = Inr s1\<close> Inr p a
      have "snd (doScanf (take (Suc (Suc j)) (Verb_x maxWid # format))
          (take (count_verbs (take (Suc (Suc j)) (Verb_x maxWid # format))) a) s b) \<noteq> None"
        by (simp add: doScanf.simps)
      ultimately show ?thesis
        using j(1) by (intro exI [of _ "Suc j"]) simp
    qed
  qed
qed

lemma Parse_m_failure_prefix:
  assumes "snd (Parse_m s x)"
  shows "\<exists>j<20.
    Sscanf s (take j uuid_format)
      (take (count_verbs (take j uuid_format)) [0, 1, 2, 3, 4, 5, 6, 7, 8, 9, 10, 11, 12, 13, 14, 15])
      (u x) = (u (fst (Parse_m s x)), None) \<and>
    snd (Sscanf s (take (Suc j) uuid_format)
      (take (count_verbs (take (Suc j) uuid_format)) [0, 1, 2, 3, 4, 5, 6, 7, 8, 9, 10, 11, 12, 13, 14, 15])
      (u x)) \<noteq> None"
proof -
  let ?a = "[0, 1, 2, 3, 4, 5, 6, 7, 8, 9, 10, 11, 12, 13, 14, 15] :: nat list"
  obtain b' err where r: "Sscanf s uuid_format ?a (u x) = (b', err)"
    by (cases "Sscanf s uuid_format ?a (u x)")
  with assms obtain e where e: "err = Some e"
    by (auto simp: Parse_m_def)
  have "count_verbs uuid_format = length ?a"
    by (simp add: uuid_format_def)
  moreover from r e have "doScanf uuid_format ?a \<lparr>rs = s, count = 0\<rparr> (u x) = (b', Some e)"
    by (simp add: Sscanf_def)
  ultimately obtain j where "j < length uuid_format"
    "doScanf (take j uuid_format) (take (count_verbs (take j uuid_format)) ?a)
       \<lparr>rs = s, count = 0\<rparr> (u x) = (b', None)"
    "snd (doScanf (take (Suc j) uuid_format) (take (count_verbs (take (Suc j) uuid_format)) ?a)
       \<lparr>rs = s, count = 0\<rparr> (u x)) \<noteq> None"
    using doScanf_failure_prefix by blast
  moreover have "length uuid_format = 20"
    by (simp add: uuid_format_def)
  moreover from r have "u (fst (Parse_m s x)) = b'"
    by (simp add: Parse_m_def)
  ultimately show ?thesis
    unfolding Sscanf_def by (intro exI [of _ j]) (simp only: simp_thms)
qed

lemma doScanf_frame:
  "doScanf format a s b = (b', r) \<Longrightarrow>
   length b' = length b \<and> (\<forall>i. i \<notin> set a \<longrightarrow> b' ! i = b ! i)"
proof (induction format a s b rule: doScanf.induct)
  case (1 a s b)
  then show ?case
    by (simp add: doScanf.simps)
next
  case (2 c format a s b)
  show ?case
  proof (cases "ReadRune hugeWid s")
    case None
    with 2(2) show ?thesis
      by (simp add: doScanf.simps)
  next
    case (Some p)
    obtain q s' where p: "p = (q, s')"
      by (cases p)
    show ?thesis
    proof (cases "of_char c = q")
      case False
      with 2(2) Some p show ?thesis
        by (simp add: doScanf.simps)
    next
      case True
      with 2(2) Some p have "doScanf format a s' b = (b', r)"
        by (simp add: doScanf.simps)
      with 2(1) [OF Some p [symmetric]] True show ?thesis
        by blast
    qed
  qed
next
  case (3 maxWid format a s b)
  show ?case
  proof (cases "SkipSpace hugeWid s")
    case (Inl e')
    with 3(2) show ?thesis
      by (simp add: doScanf.simps)
  next
    case s1: (Inr s1)
    show ?thesis
    proof (cases a)
      case Nil
      with 3(2) s1 show ?thesis
        by (simp add: doScanf.simps)
    next
      case (Cons arg a')
      show ?thesis
      proof (cases "scanUint (min hugeWid (count s1 + maxWid)) 8 s1")
        case (Inl e')
        with 3(2) s1 Cons show ?thesis
          by (simp add: doScanf.simps)
      next
        case (Inr p)
        obtain i s2 where p: "p = (i, s2)"
          by (cases p)
        from 3(2) s1 Cons Inr p
        have "doScanf format a' s2 (b[arg := of_nat i]) = (b', r)"
          by (simp add: doScanf.simps)
        from 3(1) [OF s1 Cons Inr p [symmetric] this]
        have "length b' = length b"
          "\<forall>j. j \<notin> set a' \<longrightarrow> b' ! j = b[arg := of_nat i] ! j"
          by simp_all
        with Cons show ?thesis
          by auto
      qed
    qed
  qed
qed

lemma count_verbs_take_uuid_format:
  assumes "j < 20"
  shows "count_verbs (take j uuid_format) < 16"
proof -
  from assms have "j = 0 \<or> j = 1 \<or> j = 2 \<or> j = 3 \<or> j = 4 \<or> j = 5 \<or> j = 6 \<or> j = 7 \<or> j = 8 \<or> j = 9 \<or> j = 10 \<or> j = 11 \<or> j = 12 \<or> j = 13 \<or> j = 14 \<or> j = 15 \<or> j = 16 \<or> j = 17 \<or> j = 18 \<or> j = 19"
    by arith
  then show ?thesis
    by (elim disjE) (simp_all add: uuid_format_def)
qed

lemma Parse_m_failure_stored:
  assumes "snd (Parse_m s x)"
  shows "\<exists>j<20. count_verbs (take j uuid_format) < 16 \<and>
    Sscanf s (take j uuid_format)
      (take (count_verbs (take j uuid_format)) [0, 1, 2, 3, 4, 5, 6, 7, 8, 9, 10, 11, 12, 13, 14, 15])
      (u x) = (u (fst (Parse_m s x)), None) \<and>
    snd (Sscanf s (take (Suc j) uuid_format)
      (take (count_verbs (take (Suc j) uuid_format)) [0, 1, 2, 3, 4, 5, 6, 7, 8, 9, 10, 11, 12, 13, 14, 15])
      (u x)) \<noteq> None \<and>
    (\<forall>i\<ge>count_verbs (take j uuid_format). u (fst (Parse_m s x)) ! i = u x ! i)"
proof -
  let ?a = "[0, 1, 2, 3, 4, 5, 6, 7, 8, 9, 10, 11, 12, 13, 14, 15 :: nat]"
  have a: "?a = [0..<16]"
    by (simp add: upt_conv_Cons)
  from Parse_m_failure_prefix [OF assms] obtain j where j: "j < 20"
    "Sscanf s (take j uuid_format) (take (count_verbs (take j uuid_format)) ?a) (u x) =
       (u (fst (Parse_m s x)), None)"
    "snd (Sscanf s (take (Suc j) uuid_format)
       (take (count_verbs (take (Suc j) uuid_format)) ?a) (u x)) \<noteq> None"
    by blast
  let ?k = "count_verbs (take j uuid_format)"
  from j(1) have k: "?k < 16"
    by (rule count_verbs_take_uuid_format)
  from j(2) have "\<forall>i. i \<notin> set (take ?k ?a) \<longrightarrow> u (fst (Parse_m s x)) ! i = u x ! i"
    unfolding Sscanf_def by (rule doScanf_frame [THEN conjunct2])
  moreover have "i \<notin> set (take ?k ?a)" if "?k \<le> i" for i
    using that k by (simp only: a take_upt) simp
  ultimately have "\<forall>i\<ge>?k. u (fst (Parse_m s x)) ! i = u x ! i"
    by blast
  with j k show ?thesis
    by blast
qed

lemma first_directive_fails_unchanged:
  assumes "first_directive_fails s"
  shows "Parse_m s x = (x, True)"
  using assms
  by (auto simp: Parse_m_def Sscanf_def uuid_format_def doScanf.simps first_directive_fails_def
      split: sum.splits)

text \<open>
  Claim C4 (a failed Parse), as amended. When parsing fails, the receiver keeps its
  length and holds what the scan of the directives before the failing one has stored:
  for some \<open>j\<close> below 20, scanning the same input with the first \<open>j\<close> directives of
  the format into the addresses of their verbs succeeds and yields the bytes that the
  failed \<^verbatim>\<open>Parse\<close> leaves, while scanning it with one directive more fails; these
  verbs are fewer than 16, and every byte from their number on is as before the call. When the first directive fails, the receiver is
  unchanged altogether; so it is for \<^verbatim>\<open>not-a-uuid\<close>. When the input follows the
  canonical string of an identifier \<open>y\<close> through the first \<open>m\<close> directives and then
  ends, or goes on with a character that the next directive cannot take, the bytes
  of \<open>y\<close> scanned so far replace those of the receiver and the others stay.
\<close>

theorem Parse_failure_frame:
  "(snd (Parse_m s x) \<longrightarrow>
      length (u (fst (Parse_m s x))) = length (u x) \<and>
      (\<exists>j<20. count_verbs (take j uuid_format) < 16 \<and>
         Sscanf s (take j uuid_format)
           (take (count_verbs (take j uuid_format)) [0, 1, 2, 3, 4, 5, 6, 7, 8, 9, 10, 11, 12, 13, 14, 15])
           (u x) = (u (fst (Parse_m s x)), None) \<and>
         snd (Sscanf s (take (Suc j) uuid_format)
           (take (count_verbs (take (Suc j) uuid_format)) [0, 1, 2, 3, 4, 5, 6, 7, 8, 9, 10, 11, 12, 13, 14, 15])
           (u x)) \<noteq> None \<and>
         (\<forall>i\<ge>count_verbs (take j uuid_format). u (fst (Parse_m s x)) ! i = u x ! i))) \<and>
   (first_directive_fails s \<longrightarrow> Parse_m s x = (x, True)) \<and>
   (m < 20 \<and> length (u y) = 16 \<and> length (u x) = 16 \<and> stops (uuid_format ! m) t \<longrightarrow>
      Parse_m (take (m + count_verbs (take m uuid_format)) (String y) @ t) x =
        (x\<lparr>u := take (count_verbs (take m uuid_format)) (u y) @
                  drop (count_verbs (take m uuid_format)) (u x)\<rparr>, True)) \<and>
   Parse_m ''not-a-uuid'' x = (x, True)"
proof -
  have "Parse_m ''not-a-uuid'' x = (x, True)"
    by (simp add: scan_eval)
  with Parse_m_failure [of s x] Parse_m_failure_stored [of s x]
    first_directive_fails_unchanged [of s x] Parse_m_canonical_prefix [of m y x t]
  show ?thesis
    by blast
qed

theorem Parse_failure_frame_witness:
  "snd (Parse_m ''d1723894-5fe7-11e7-907b-a6006ad3dbzz'' NilUUID) \<and>
   length (u (fst (Parse_m ''d1723894-5fe7-11e7-907b-a6006ad3dbzz'' NilUUID))) = 16 \<and>
   u (fst (Parse_m ''d1723894-5fe7-11e7-907b-a6006ad3dbzz'' NilUUID)) ! 15 = u NilUUID ! 15 \<and>
   first_directive_fails ''xyz'' \<and>
   Parse_m ''xyz'' NilUUID = (NilUUID, True) \<and>
   stops (uuid_format ! 19) ''zz'' \<and>
   Parse_m ''d1723894-5fe7-11e7-907b-a6006ad3dbzz'' NilUUID =
     (\<lparr>u = [0xd1, 0x72, 0x38, 0x94, 0x5f, 0xe7, 0x11, 0xe7, 0x90, 0x7b, 0xa6, 0x00, 0x6a, 0xd3, 0xdb, 0]\<rparr>, True)"
proof -
  let ?s = "''d1723894-5fe7-11e7-907b-a6006ad3dbzz''"
  let ?y = "\<lparr>u = [0xd1, 0x72, 0x38, 0x94, 0x5f, 0xe7, 0x11, 0xe7, 0x90, 0x7b, 0xa6, 0x00, 0x6a, 0xd3, 0xdb, 0xa0]\<rparr>"
  have f: "first_directive_fails ''xyz''"
    by (simp add: first_directive_fails_def scan_eval)
  have st: "stops (uuid_format ! 19) ''zz''"
    by (simp add: stops_def uuid_format_def is_hex_def hexadecimalDigits_def isSpace_def)
  have p: "take (19 + count_verbs (take 19 uuid_format)) (String ?y) @ ''zz'' = ?s"
    by (simp add: uuid_format_def String_def fmt_02x_def ldigits_def)
  have q: "NilUUID\<lparr>u := take (count_verbs (take 19 uuid_format)) (u ?y) @
      drop (count_verbs (take 19 uuid_format)) (u NilUUID)\<rparr> =
      \<lparr>u = [0xd1, 0x72, 0x38, 0x94, 0x5f, 0xe7, 0x11, 0xe7, 0x90, 0x7b, 0xa6, 0x00, 0x6a, 0xd3, 0xdb, 0]\<rparr>"
    by (simp add: uuid_format_def NilUUID_def replicate_16)
  from Parse_failure_frame [of _ NilUUID 19 ?y "''zz''"] st
  have "Parse_m (take (19 + count_verbs (take 19 uuid_format)) (String ?y) @ ''zz'') NilUUID =
      (NilUUID\<lparr>u := take (count_verbs (take 19 uuid_format)) (u ?y) @
         drop (count_verbs (take 19 uuid_format)) (u NilUUID)\<rparr>, True)"
    by (simp add: NilUUID_def)
  then have r: "Parse_m ?s NilUUID =
      (\<lparr>u = [0xd1, 0x72, 0x38, 0x94, 0x5f, 0xe7, 0x11, 0xe7, 0x90, 0x7b, 0xa6, 0x00, 0x6a, 0xd3, 0xdb, 0]\<rparr>, True)"
    by (simp only: p q)
  then have sn: "snd (Parse_m ?s NilUUID)"
    by simp
  with Parse_failure_frame [of ?s NilUUID]
  obtain j where "length (u (fst (Parse_m ?s NilUUID))) = length (u NilUUID)"
    "count_verbs (take j uuid_format) < 16"
    "\<forall>i\<ge>count_verbs (take j uuid_format). u (fst (Parse_m ?s NilUUID)) ! i = u NilUUID ! i"
    by blast
  moreover from this(2) have "count_verbs (take j uuid_format) \<le> 15"
    by simp
  ultimately have "length (u (fst (Parse_m ?s NilUUID))) = 16"
    "u (fst (Parse_m ?s NilUUID)) ! 15 = u NilUUID ! 15"
    by (simp_all add: NilUUID_def)
  moreover from Parse_failure_frame [of "''xyz''" NilUUID] f have "Parse_m ''xyz'' NilUUID = (NilUUID, True)"
    by blast
  ultimately show ?thesis
    using sn f st r by blast
qed

text \<open>
  The claim as stated fails: on an input that is canonical up to its last two
  characters, parsing fails after fifteen bytes of the receiver have been overwritten.
\<close>

theorem Parse_partial_write_counterexample:
  "Parse_m ''d1723894-5fe7-11e7-907b-a6006ad3dbzz'' NilUUID =
     (\<lparr>u = [0xd1, 0x72, 0x38, 0x94, 0x5f, 0xe7, 0x11, 0xe7, 0x90, 0x7b, 0xa6, 0x00, 0x6a, 0xd3, 0xdb, 0]\<rparr>, True) \<and>
   fst (Parse_m ''d1723894-5fe7-11e7-907b-a6006ad3dbzz'' NilUUID) \<noteq> NilUUID"
  by (simp add: scan_eval NilUUID_def)

subsection \<open>Generated identifiers\<close>

text \<open>
  The predefined namespaces have sixteen bytes each, and their textual forms are the
  identifiers that RFC 4122 lists.
\<close>

lemma predefined_namespaces:
  "length (u Namespace_DNS) = 16 \<and> String Namespace_DNS = ''6ba7b810-9dad-11d1-80b4-00c04fd430c8''"
  "length (u Namespace_URL) = 16 \<and> String Namespace_URL = ''6ba7b811-9dad-11d1-80b4-00c04fd430c8''"
  "length (u Namespace_OID) = 16 \<and> String Namespace_OID = ''6ba7b812-9dad-11d1-80b4-00c04fd430c8''"
  "length (u Namespace_X500) = 16 \<and> String Namespace_X500 = ''6ba7b814-9dad-11d1-80b4-00c04fd430c8''"
  by (simp_all add: Namespace_DNS_def Namespace_URL_def Namespace_OID_def Namespace_X500_def
      String_def fmt_02x_def ldigits_def)

lemma version_field:
  fixes v :: byte
  shows "drop_bit 4 ((v AND 0x0f) OR 0x30) = 3"
    and "drop_bit 4 ((v AND 0x0f) OR 0x40) = 4"
    and "drop_bit 4 ((v AND 0x0f) OR 0x50) = 5"
  by (rule bit_word_eqI, auto simp: bit_simps less_Suc_eq_0_disj numeral_eq_Suc)+

lemma variant_field:
  fixes v :: byte
  shows "drop_bit 6 ((v AND 0x3f) OR 0x80) = 2"
  by (rule bit_word_eqI) (auto simp: bit_simps less_Suc_eq_0_disj numeral_eq_Suc)

lemma v1_version_field:
  fixes ts :: "64 word"
  shows "drop_bit 4 (ucast (drop_bit 8 (ucast ((signed_drop_bit 48 ts AND 0x0FFF) OR 0x1000) :: 16 word)) :: byte) = 1"
  by (rule bit_word_eqI) (auto simp: bit_simps less_Suc_eq_0_disj numeral_eq_Suc)

lemma v1_variant_field:
  fixes c :: "16 word"
  shows "drop_bit 6 (ucast (drop_bit 8 ((c AND 0x3fff) OR 0x8000)) :: byte) = 2"
  by (rule bit_word_eqI) (auto simp: bit_simps less_Suc_eq_0_disj numeral_eq_Suc)

lemma length_copy_go [simp]:
  "length (copy_go dst src) = length dst"
  by (simp add: copy_go_def)

lemma copy_go_whole:
  "length dst \<le> length src \<Longrightarrow> copy_go dst src = take (length dst) src"
  by (simp add: copy_go_def)

lemma length_md5_Sum [simp]:
  "length (md5_Sum h) = 16"
  by (simp add: md5_Sum_def bytes_le32_def split: prod.split)

lemma length_sha1_Sum [simp]:
  "length (sha1_Sum h) = 20"
  by (simp add: sha1_Sum_def bytes_be32_def split: prod.split)

lemma GenerateV1_m_fields:
  assumes "length (u x) = 16"
  shows "u (fst (GenerateV1_m now x st)) ! 6 =
      ucast (drop_bit 8 (ucast ((signed_drop_bit 48 (fst (getTimestampV1 now st)) AND 0x0FFF) OR 0x1000) :: 16 word))"
    and "u (fst (GenerateV1_m now x st)) ! 8 =
      ucast (drop_bit 8 ((clockSeq (snd (getTimestampV1 now st)) AND 0x3fff) OR 0x8000))"
    and "length (u (fst (GenerateV1_m now x st))) = 16"
    and "drop 10 (u (fst (GenerateV1_m now x st))) =
      copy_go (drop 10 (u x)) (nodeId (snd (getTimestampV1 now st)))"
    and "snd (GenerateV1_m now x st) = snd (getTimestampV1 now st)"
  using assms
  by (simp_all add: GenerateV1_m_def Let_def nth_append case_prod_beta)

lemma getTimestampV1_nodeId [simp]:
  "nodeId (snd (getTimestampV1 now st)) = nodeId st"
  by (simp add: getTimestampV1_def Let_def)

lemma GenerateV1_m_bytes:
  assumes "length (u x) = 16"
  shows "Version (fst (GenerateV1_m now x st)) = 1"
    and "drop_bit 6 (u (fst (GenerateV1_m now x st)) ! 8) = 2"
    and "length (nodeId st) = 6 \<Longrightarrow> drop 10 (u (fst (GenerateV1_m now x st))) = nodeId st"
    and "nodeId (snd (GenerateV1_m now x st)) = nodeId st"
proof -
  show "Version (fst (GenerateV1_m now x st)) = 1"
    by (simp only: Version_def GenerateV1_m_fields(1) [OF assms] v1_version_field)
  show "drop_bit 6 (u (fst (GenerateV1_m now x st)) ! 8) = 2"
    by (simp only: GenerateV1_m_fields(2) [OF assms] v1_variant_field)
  show "drop 10 (u (fst (GenerateV1_m now x st))) = nodeId st" if "length (nodeId st) = 6"
    using that assms by (simp add: GenerateV1_m_fields(4) [OF assms] copy_go_def)
  show "nodeId (snd (GenerateV1_m now x st)) = nodeId st"
    by (simp add: GenerateV1_m_fields(5) [OF assms])
qed

lemma GenerateV3_m_bytes:
  assumes "length (u ns) = 16" "name \<noteq> []" "length (u x) = 16"
  shows "u (GenerateV3_m x ns name) = spec_name_based md5_Sum 3 ns name"
  using assms
  by (simp add: GenerateV3_m_def spec_name_based_def hash_New_def hash_Write_def Let_def
      copy_go_whole)

lemma GenerateV5_m_bytes:
  assumes "length (u ns) = 16" "name \<noteq> []" "length (u x) = 16"
  shows "u (GenerateV5_m x ns name) = spec_name_based sha1_Sum 5 ns name"
  using assms
  by (simp add: GenerateV5_m_def spec_name_based_def hash_New_def hash_Write_def Let_def
      copy_go_whole)

lemma spec_name_based_fields:
  assumes "16 \<le> length (digest (u ns @ map of_char name))"
  shows "length (spec_name_based digest version ns name) = 16"
    and "spec_name_based digest version ns name ! 6 =
      (digest (u ns @ map of_char name) ! 6 AND 0x0f) OR push_bit 4 version"
    and "spec_name_based digest version ns name ! 8 =
      (digest (u ns @ map of_char name) ! 8 AND 0x3f) OR 0x80"
  using assms by (simp_all add: spec_name_based_def Let_def)

lemma GenerateV4_m_fields:
  assumes "length (u x) = 16"
  shows "u (GenerateV4_m random x) ! 6 = (rand_Read (u x) random ! 6 AND 0x0f) OR 0x40"
    and "u (GenerateV4_m random x) ! 8 = (rand_Read (u x) random ! 8 AND 0x3f) OR 0x80"
  using assms by (simp_all add: GenerateV4_m_def Let_def rand_Read_def)

text \<open>
  Claim C2 (version and variant of generated identifiers), as amended. After
  \<^verbatim>\<open>GenerateV1\<close> (any clock reading, any state) and \<^verbatim>\<open>GenerateV4\<close> (any random
  bytes), and after \<^verbatim>\<open>GenerateV3\<close> and \<^verbatim>\<open>GenerateV5\<close> with a name that is not
  empty, the top two bits of byte 8 are binary 10 and \<^verbatim>\<open>Version\<close> returns 1, 4, 3
  and 5. The call with the empty name is excluded: it generates nothing.
\<close>

theorem generated_version_and_variant:
  assumes "length (u x) = 16"
  shows "Version (fst (GenerateV1_m now x st)) = 1 \<and>
     drop_bit 6 (u (fst (GenerateV1_m now x st)) ! 8) = 2 \<and>
     Version (GenerateV4_m random x) = 4 \<and>
     drop_bit 6 (u (GenerateV4_m random x) ! 8) = 2 \<and>
     (length (u ns) = 16 \<and> name \<noteq> [] \<longrightarrow>
        Version (GenerateV3_m x ns name) = 3 \<and>
        drop_bit 6 (u (GenerateV3_m x ns name) ! 8) = 2 \<and>
        Version (GenerateV5_m x ns name) = 5 \<and>
        drop_bit 6 (u (GenerateV5_m x ns name) ! 8) = 2)"
proof -
  have v4: "Version (GenerateV4_m random x) = 4 \<and> drop_bit 6 (u (GenerateV4_m random x) ! 8) = 2"
    by (simp only: Version_def GenerateV4_m_fields [OF assms] version_field variant_field)
  have named: "Version (GenerateV3_m x ns name) = 3 \<and>
        drop_bit 6 (u (GenerateV3_m x ns name) ! 8) = 2 \<and>
        Version (GenerateV5_m x ns name) = 5 \<and>
        drop_bit 6 (u (GenerateV5_m x ns name) ! 8) = 2"
    if "length (u ns) = 16" "name \<noteq> []"
  proof -
    have p3: "push_bit 4 (3 :: byte) = 0x30" and p5: "push_bit 4 (5 :: byte) = 0x50"
      by simp_all
    show ?thesis
      by (simp only: Version_def GenerateV3_m_bytes [OF that assms]
          GenerateV5_m_bytes [OF that assms] spec_name_based_fields length_md5_Sum
          length_sha1_Sum p3 p5 version_field variant_field)
  qed
  from GenerateV1_m_bytes(1,2) [OF assms] v4 named show ?thesis
    by blast
qed

theorem generated_version_and_variant_witness:
  "length (u NilUUID) = 16 \<and> length (u NilUUID) = 16 \<and> ''a'' \<noteq> [] \<and>
   Version (fst (GenerateV1_m 0 NilUUID zero_state)) = 1 \<and>
   Version (GenerateV3_m NilUUID NilUUID ''a'') = 3 \<and>
   drop_bit 6 (u (GenerateV3_m NilUUID NilUUID ''a'') ! 8) = (2 :: byte) \<and>
   Version (GenerateV5_m NilUUID NilUUID ''a'') = 5"
  using generated_version_and_variant [of NilUUID 0 zero_state "[]" NilUUID "''a''"]
  by (simp add: NilUUID_def)

text \<open>
  The claim as stated, for every input, fails at the empty name: the identifier
  that the function \<^verbatim>\<open>GenerateV3\<close> returns is then the zero value, of version 0 and
  with the top two bits of byte 8 clear.
\<close>

theorem empty_name_version_counterexample:
  "Version (GenerateV3 NilUUID '''') = 0 \<and> Version (GenerateV3 NilUUID '''') \<noteq> 3 \<and>
   drop_bit 6 (u (GenerateV3 NilUUID '''') ! 8) \<noteq> (2 :: byte)"
  by (simp add: GenerateV3_def GenerateV3_m_def Version_def replicate_16)

text \<open>
  Claim C7 (empty name). For every namespace, \<^verbatim>\<open>GenerateV3\<close> and \<^verbatim>\<open>GenerateV5\<close>
  called with the empty name generate nothing and leave the receiver as it was; the
  result is a function of the arguments alone. The functions of the same names
  return the zero value they started from.
\<close>

theorem empty_name_is_no_op:
  "GenerateV3_m x ns '''' = x \<and> GenerateV5_m x ns '''' = x \<and>
   GenerateV3 ns '''' = NilUUID \<and> GenerateV5 ns '''' = NilUUID"
  by (simp add: GenerateV3_m_def GenerateV5_m_def GenerateV3_def GenerateV5_def NilUUID_def)

theorem empty_name_is_no_op_witness:
  "length '''' = 0 \<and>
   GenerateV3_m \<lparr>u = [0xd1, 0x72, 0x38, 0x94, 0x5f, 0xe7, 0x11, 0xe7, 0x90, 0x7b, 0xa6, 0x00, 0x6a, 0xd3, 0xdb, 0xa0]\<rparr> \<lparr>u = [0x6b, 0xa7, 0xb8, 0x10, 0x9d, 0xad, 0x11, 0xd1, 0x80, 0xb4, 0x00, 0xc0, 0x4f, 0xd4, 0x30, 0xc8]\<rparr> '''' = \<lparr>u = [0xd1, 0x72, 0x38, 0x94, 0x5f, 0xe7, 0x11, 0xe7, 0x90, 0x7b, 0xa6, 0x00, 0x6a, 0xd3, 0xdb, 0xa0]\<rparr> \<and>
   GenerateV5_m \<lparr>u = [0xd1, 0x72, 0x38, 0x94, 0x5f, 0xe7, 0x11, 0xe7, 0x90, 0x7b, 0xa6, 0x00, 0x6a, 0xd3, 0xdb, 0xa0]\<rparr> \<lparr>u = [0x6b, 0xa7, 0xb8, 0x10, 0x9d, 0xad, 0x11, 0xd1, 0x80, 0xb4, 0x00, 0xc0, 0x4f, 0xd4, 0x30, 0xc8]\<rparr> '''' = \<lparr>u = [0xd1, 0x72, 0x38, 0x94, 0x5f, 0xe7, 0x11, 0xe7, 0x90, 0x7b, 0xa6, 0x00, 0x6a, 0xd3, 0xdb, 0xa0]\<rparr>"
  using empty_name_is_no_op [of "\<lparr>u = [0xd1, 0x72, 0x38, 0x94, 0x5f, 0xe7, 0x11, 0xe7, 0x90, 0x7b, 0xa6, 0x00, 0x6a, 0xd3, 0xdb, 0xa0]\<rparr>" "\<lparr>u = [0x6b, 0xa7, 0xb8, 0x10, 0x9d, 0xad, 0x11, 0xd1, 0x80, 0xb4, 0x00, 0xc0, 0x4f, 0xd4, 0x30, 0xc8]\<rparr>"]
  by simp

text \<open>
  Claim C5 (name-based generation). For a 16-byte namespace and a name that is not
  empty, the bytes of \<^verbatim>\<open>GenerateV3\<close> are the first 16 bytes of the MD5 digest of the
  namespace bytes followed by the bytes of the name, with the version nibble of byte 6
  set to 0011 and the top two bits of byte 8 set to 10; those of \<^verbatim>\<open>GenerateV5\<close> are
  the leading 16 of the 20 bytes of the SHA-1 digest, with version nibble 0101. The
  result depends on the namespace and the name only, not on the receiver.
\<close>

theorem name_based_generation:
  assumes "length (u ns) = 16" "name \<noteq> []"
  shows "GenerateV3 ns name = \<lparr>u = spec_name_based md5_Sum 3 ns name\<rparr> \<and>
     GenerateV5 ns name = \<lparr>u = spec_name_based sha1_Sum 5 ns name\<rparr> \<and>
     length (sha1_Sum (u ns @ map of_char name)) = 20 \<and>
     (length (u x) = 16 \<longrightarrow>
        GenerateV3_m x ns name = x\<lparr>u := u (GenerateV3 ns name)\<rparr> \<and>
        GenerateV5_m x ns name = x\<lparr>u := u (GenerateV5 ns name)\<rparr>)"
proof -
  have eq: "y = \<lparr>u = b\<rparr>" if "u y = b" for y :: UUID and b
    using that by (cases y) simp
  have z: "length (u \<lparr>u = replicate 16 (0 :: byte)\<rparr>) = 16"
    by simp
  have f3: "GenerateV3_m y ns name = \<lparr>u = spec_name_based md5_Sum 3 ns name\<rparr>"
    if "length (u y) = 16" for y
    by (rule eq) (rule GenerateV3_m_bytes [OF assms that])
  have f5: "GenerateV5_m y ns name = \<lparr>u = spec_name_based sha1_Sum 5 ns name\<rparr>"
    if "length (u y) = 16" for y
    by (rule eq) (rule GenerateV5_m_bytes [OF assms that])
  from f3 [OF z] f5 [OF z] f3 [of x] f5 [of x] show ?thesis
    by (simp add: GenerateV3_def GenerateV5_def)
qed

text \<open>
  An instance: the namespace \<^verbatim>\<open>6ba7b810-9dad-11d1-80b4-00c04fd430c8\<close>, which
  RFC 4122 assigns to domain names, and the name \<^verbatim>\<open>python.org\<close>.
\<close>

theorem name_based_generation_witness:
  "length (u \<lparr>u = [0x6b, 0xa7, 0xb8, 0x10, 0x9d, 0xad, 0x11, 0xd1, 0x80, 0xb4, 0x00, 0xc0, 0x4f, 0xd4, 0x30, 0xc8]\<rparr>) = 16 \<and>
   ''python.org'' \<noteq> [] \<and>
   GenerateV3 \<lparr>u = [0x6b, 0xa7, 0xb8, 0x10, 0x9d, 0xad, 0x11, 0xd1, 0x80, 0xb4, 0x00, 0xc0, 0x4f, 0xd4, 0x30, 0xc8]\<rparr> ''python.org'' =
     \<lparr>u = spec_name_based md5_Sum 3 \<lparr>u = [0x6b, 0xa7, 0xb8, 0x10, 0x9d, 0xad, 0x11, 0xd1, 0x80, 0xb4, 0x00, 0xc0, 0x4f, 0xd4, 0x30, 0xc8]\<rparr> ''python.org''\<rparr> \<and>
   GenerateV5 \<lparr>u = [0x6b, 0xa7, 0xb8, 0x10, 0x9d, 0xad, 0x11, 0xd1, 0x80, 0xb4, 0x00, 0xc0, 0x4f, 0xd4, 0x30, 0xc8]\<rparr> ''python.org'' =
     \<lparr>u = spec_name_based sha1_Sum 5 \<lparr>u = [0x6b, 0xa7, 0xb8, 0x10, 0x9d, 0xad, 0x11, 0xd1, 0x80, 0xb4, 0x00, 0xc0, 0x4f, 0xd4, 0x30, 0xc8]\<rparr> ''python.org''\<rparr>"
  using name_based_generation [of "\<lparr>u = [0x6b, 0xa7, 0xb8, 0x10, 0x9d, 0xad, 0x11, 0xd1, 0x80, 0xb4, 0x00, 0xc0, 0x4f, 0xd4, 0x30, 0xc8]\<rparr>" "''python.org''"]
  by simp

text \<open>
  For the same namespace and name, the identifier of version 3 that the model
  computes is the one other implementations of RFC 4122 give.
\<close>

lemma GenerateV3_known_answer:
  "String (GenerateV3 \<lparr>u = [0x6b, 0xa7, 0xb8, 0x10, 0x9d, 0xad, 0x11, 0xd1, 0x80, 0xb4, 0x00, 0xc0, 0x4f, 0xd4, 0x30, 0xc8]\<rparr> ''python.org'') = ''6fa459ea-ee8a-3ca4-894e-db77e160355e''"
  by code_simp

subsection \<open>The clock sequence\<close>

lemma bump_mod:
  fixes c :: "16 word"
  shows "unat ((c + 1) AND 0x3FFF) = (unat c + 1) mod 2 ^ 14"
proof -
  have "(c + 1) AND 0x3FFF = take_bit 14 (c + 1)"
    by (simp add: take_bit_eq_mask mask_eq_exp_minus_1)
  then have "unat ((c + 1) AND 0x3FFF) = unat (c + 1) mod 2 ^ 14"
    by (simp add: take_bit_eq_mod unat_mod)
  also have "unat (c + 1) = (unat c + 1) mod 2 ^ 16"
    by (simp add: unat_word_ariths)
  also have "(unat c + 1) mod 2 ^ 16 mod 2 ^ 14 = (unat c + 1) mod 2 ^ 14"
    by (rule mod_mod_cancel) simp
  finally show ?thesis .
qed

text \<open>
  Claim C6 (clock sequence). In the v1 generator the state after the call is the one
  \<^verbatim>\<open>getTimestampV1\<close> leaves: \<^verbatim>\<open>lastTime\<close> is the timestamp \<open>ts\<close> just computed,
  in every case, and \<^verbatim>\<open>clockSeq\<close> has been incremented modulo \<open>2 ^ 14\<close> exactly when
  \<open>ts\<close> is not strictly greater than the previous \<^verbatim>\<open>lastTime\<close>, that is when
  \<open>ts \<le> lastTime\<close> as signed 64-bit integers.
\<close>

theorem getTimestampV1_clock_sequence:
  "snd (GenerateV1_m now x st) = snd (getTimestampV1 now st) \<and>
   fst (getTimestampV1 now st) = word_of_int (sint now sdiv 100) + OFFSETNS \<and>
   lastTime (snd (getTimestampV1 now st)) = fst (getTimestampV1 now st) \<and>
   unat (clockSeq (snd (getTimestampV1 now st))) =
     (if \<not> word_sless (lastTime st) (fst (getTimestampV1 now st))
      then (unat (clockSeq st) + 1) mod 2 ^ 14 else unat (clockSeq st)) \<and>
   (\<not> word_sless (lastTime st) (fst (getTimestampV1 now st))) =
     word_sle (fst (getTimestampV1 now st)) (lastTime st)"
proof -
  have "snd (GenerateV1_m now x st) = snd (getTimestampV1 now st)"
    by (simp add: GenerateV1_m_def Let_def case_prod_beta)
  moreover have "(\<not> word_sless a b) = word_sle b a" for a b :: "64 word"
    by (simp add: word_sless_alt word_sle_eq not_less)
  ultimately show ?thesis
    by (simp add: getTimestampV1_def Let_def bump_mod)
qed

text \<open>
  The drafts of \<^verbatim>\<open>GenerateV1\<close> differ from the final code at one point: with the
  clock standing still they leave the clock sequence as it is.
\<close>

lemma draft_clock_step_equal:
  "clockSeq (draft_clock_step (lastTime st) st) = clockSeq st"
  by (simp add: draft_clock_step_def Let_def word_sless_alt)

subsection \<open>The node field\<close>

lemma run_call_nodeId:
  "nodeId (snd (run_call c st)) = nodeId st"
  by (cases c) (simp_all add: GenerateV1_m_def Let_def case_prod_beta)

lemma run_calls_nodeId:
  "nodeId (snd (run_calls cs st)) = nodeId st"
proof (induction cs arbitrary: st)
  case Nil
  show ?case by simp
next
  case (Cons c cs)
  from Cons.IH [of "snd (run_call c st)"] run_call_nodeId [of c st] show ?case
    by (simp add: case_prod_beta)
qed

lemma run_calls_nth:
  "i < length cs \<Longrightarrow>
   fst (run_calls cs st) ! i = fst (run_call (cs ! i) (snd (run_calls (take i cs) st)))"
proof (induction cs arbitrary: st i)
  case Nil
  then show ?case by simp
next
  case (Cons c cs)
  show ?case
  proof (cases i)
    case 0
    then show ?thesis by (simp add: case_prod_beta)
  next
    case (Suc j)
    with Cons.prems have "j < length cs" by simp
    from Cons.IH [OF this, of "snd (run_call c st)"] Suc show ?thesis
      by (simp add: case_prod_beta)
  qed
qed

text \<open>
  Claim C10 (frame of the generation state). A call of \<^verbatim>\<open>GenerateV1\<close> leaves
  \<^verbatim>\<open>nodeId\<close> as it was, and so does every sequence of generation calls of a process;
  each v1 identifier produced in such a sequence carries in its bytes 10 to 15 the
  node id that the process started with.
\<close>

theorem nodeId_frame:
  "nodeId (snd (GenerateV1_m now x st)) = nodeId st \<and>
   nodeId (snd (run_calls cs st)) = nodeId st \<and>
   (i < length cs \<and> cs ! i = CallV1 now x \<and> length (u x) = 16 \<and> length (nodeId st) = 6 \<longrightarrow>
      drop 10 (u (fst (run_calls cs st) ! i)) = nodeId st)"
proof -
  have "drop 10 (u (fst (run_calls cs st) ! i)) = nodeId st"
    if "i < length cs" "cs ! i = CallV1 now x" "length (u x) = 16" "length (nodeId st) = 6"
  proof -
    let ?st = "snd (run_calls (take i cs) st)"
    have "length (nodeId ?st) = 6"
      using that(4) by (simp add: run_calls_nodeId)
    from GenerateV1_m_bytes(3) [OF that(3) this, of now] run_calls_nth [OF that(1), of st] that(2)
    show ?thesis by (simp add: run_calls_nodeId)
  qed
  then show ?thesis
    by (simp add: run_calls_nodeId GenerateV1_m_def Let_def case_prod_beta)
qed

theorem nodeId_frame_witness:
  "(1 :: nat) < length [CallV4 [] NilUUID, CallV1 7 NilUUID] \<and>
   [CallV4 [] NilUUID, CallV1 7 NilUUID] ! 1 = CallV1 7 NilUUID \<and> length (u NilUUID) = 16 \<and>
   length (nodeId (init [1, 2, 3, 4, 5, 6] [7, 8])) = 6 \<and>
   drop 10 (u (fst (run_calls [CallV4 [] NilUUID, CallV1 7 NilUUID] (init [1, 2, 3, 4, 5, 6] [7, 8])) ! 1)) =
     [1, 2, 3, 4, 5, 7]"
  using nodeId_frame [of 7 NilUUID "init [1, 2, 3, 4, 5, 6] [7, 8]" "[CallV4 [] NilUUID, CallV1 7 NilUUID]" 1]
  by (simp add: NilUUID_def init_def initNodeId_def initClockSeq_def zero_state_def rand_Read_def
      copy_go_def Let_def)

text \<open>
  Claim C8 (node id). \<^verbatim>\<open>initNodeId\<close> sets the least significant bit of
  \<^verbatim>\<open>nodeId[5]\<close>, the last octet of the node field, and leaves the first octet as the
  random source delivered it. With random bytes whose first octet is even, byte 10
  of a v1 identifier has its least significant bit clear and byte 15 has it set.
\<close>

theorem initNodeId_sets_last_octet:
  "nodeId (init [0x02, 0, 0, 0, 0, 0] [0, 0]) = [0x02, 0, 0, 0, 0, 1] \<and>
   u (fst (GenerateV1 1500000000000000000 (init [0x02, 0, 0, 0, 0, 0] [0, 0]))) ! 10 AND 1 = 0 \<and>
   u (fst (GenerateV1 1500000000000000000 (init [0x02, 0, 0, 0, 0, 0] [0, 0]))) ! 15 AND 1 = 1"
proof -
  have n: "nodeId (init [0x02, 0, 0, 0, 0, 0] [0, 0]) = [0x02, 0, 0, 0, 0, 1]"
    by (simp add: init_def initNodeId_def initClockSeq_def zero_state_def rand_Read_def
        copy_go_def Let_def eval_nat_numeral)
  let ?x = "fst (GenerateV1 1500000000000000000 (init [0x02, 0, 0, 0, 0, 0] [0, 0]))"
  have z: "length (u \<lparr>u = replicate 16 (0 :: byte)\<rparr>) = 16"
    by simp
  have d: "drop 10 (u ?x) = [0x02, 0, 0, 0, 0, 1]"
    unfolding GenerateV1_def using GenerateV1_m_bytes(3) [OF z] n by simp
  have l: "length (u ?x) = 16"
    unfolding GenerateV1_def by (rule GenerateV1_m_fields(3) [OF z])
  have "u ?x ! (10 + k) = drop 10 (u ?x) ! k" for k
    using l by simp
  from this [of 0] this [of 5] d n show ?thesis
    by simp
qed

subsection \<open>The Nil identifier\<close>

text \<open>
  Claim C9 (Nil identity). The textual form of the Nil identifier, the all-zero value,
  is \<^verbatim>\<open>00000000-0000-0000-0000-000000000000\<close>, and its version is 0.
\<close>

theorem Nil_identity:
  "String NilUUID = ''00000000-0000-0000-0000-000000000000'' \<and> Version NilUUID = 0"
  by (simp add: String_def Version_def NilUUID_def fmt_02x_def ldigits_def)

end
